theory Spec2Isabelle
  imports Main "HOL-Library.Word"
begin

section \<open>Data model of the page (page.cpp)\<close>

text \<open>
  \<open>ParamId\<close> is \<open>uint32_t\<close>, \<open>EntryOffset\<close> is a 32-bit byte offset from the start of the
  page, and a \<open>TimeStamp\<close> wraps one \<open>int64_t\<close>. A time stamp is kept as its 64-bit
  pattern; the comparison operators of \<open>TimeStamp\<close> read it as a signed number.
\<close>

type_synonym ParamId = "32 word"
type_synonym EntryOffset = "32 word"
type_synonym TimeStamp = "64 word"

definition TimeStamp_less :: "TimeStamp \<Rightarrow> TimeStamp \<Rightarrow> bool" where
  "TimeStamp_less a b = (sint a < sint b)"

definition TimeStamp_greater :: "TimeStamp \<Rightarrow> TimeStamp \<Rightarrow> bool" where
  "TimeStamp_greater a b = (sint a > sint b)"

definition TimeStamp_le :: "TimeStamp \<Rightarrow> TimeStamp \<Rightarrow> bool" where
  "TimeStamp_le a b = (sint a \<le> sint b)"

definition TimeStamp_ge :: "TimeStamp \<Rightarrow> TimeStamp \<Rightarrow> bool" where
  "TimeStamp_ge a b = (sint a \<ge> sint b)"

definition MAX_TIMESTAMP :: TimeStamp where
  "MAX_TIMESTAMP = 0x7FFFFFFFFFFFFFFF"

definition MIN_TIMESTAMP :: TimeStamp where
  "MIN_TIMESTAMP = 0"

text \<open>
  An \<open>Entry\<close> is a variable-length record: the fixed fields and the bytes that follow them
  (\<open>value_bytes\<close> stands for the member \<open>value[]\<close>).
\<close>

record Entry =
  param_id :: ParamId
  time :: TimeStamp
  length_field :: "32 word"
  value_bytes :: "8 word list"

record PageBoundingBox =
  max_id :: ParamId
  min_id :: ParamId
  max_timestamp :: TimeStamp
  min_timestamp :: TimeStamp

datatype PageType = Metadata | Index

text \<open>
  The header fields of a page, followed by the two regions of the mapped file that the code
  addresses through the header: \<open>page_index\<close>, the array of offsets that starts right after
  the header, and \<open>heap\<close>, the records of the page, each read through
  \<open>reinterpret_cast<const Entry*>(cdata() + offset)\<close> and therefore keyed by its offset.
  Both are total: a slot or an offset that was never written holds whatever the mapped
  memory holds.
\<close>

record PageHeader =
  type :: PageType
  count :: "32 word"
  last_offset :: "32 word"
  sync_index :: "32 word"
  page_length :: "64 word"
  open_count :: "32 word"
  close_count :: "32 word"
  page_id :: "32 word"
  bbox :: PageBoundingBox
  page_index :: "32 word \<Rightarrow> EntryOffset"
  heap :: "EntryOffset \<Rightarrow> Entry"

text \<open>
  The declarations of page.h and akumuli\_def.h are not part of the sources at hand, so the
  sizes and constants they fix are parameters of the model: \<open>sizeof(Entry)\<close>,
  \<open>sizeof(Entry2)\<close>, the offset of \<open>page_index\<close> from the start of the page
  (\<open>sizeof(PageHeader)\<close>), the interpolation cutoff and the two direction codes.
  \<open>sizeof(EntryOffset)\<close> is 4.
\<close>

record akumuli_def =
  sizeof_Entry :: nat
  sizeof_Entry2 :: nat
  sizeof_PageHeader :: nat
  AKU_INTERPOLATION_SEARCH_CUTOFF :: "32 word"
  AKU_CURSOR_DIR_FORWARD :: "32 word"
  AKU_CURSOR_DIR_BACKWARD :: "32 word"

definition sizeof_EntryOffset :: nat where
  "sizeof_EntryOffset = 4"

datatype write_status =
  AKU_WRITE_STATUS_SUCCESS | AKU_WRITE_STATUS_OVERFLOW | AKU_WRITE_STATUS_BAD_DATA

subsection \<open>Construction and bounding box\<close>

definition PageBoundingBox_new :: PageBoundingBox where
  "PageBoundingBox_new =
     \<lparr> max_id = 0, min_id = 0xFFFFFFFF,
       max_timestamp = MIN_TIMESTAMP, min_timestamp = MAX_TIMESTAMP \<rparr>"

text \<open>
  The constructor is run by placement new on mapped memory: it sets the header fields and
  leaves the index and the records as the memory \<open>mem_index\<close>, \<open>mem_heap\<close> has them.
  \<open>last_offset\<close> receives the 64-bit \<open>length - 1\<close>, cut to 32 bits.
\<close>

definition PageHeader_new ::
  "(32 word \<Rightarrow> EntryOffset) \<Rightarrow> (EntryOffset \<Rightarrow> Entry) \<Rightarrow> PageType \<Rightarrow> 32 word \<Rightarrow> 64 word \<Rightarrow> 32 word
     \<Rightarrow> PageHeader" where
  "PageHeader_new mem_index mem_heap ty cnt len pid =
     \<lparr> type = ty, count = cnt, last_offset = ucast (len - 1), sync_index = 0,
       page_length = len, open_count = 0, close_count = 0, page_id = pid,
       bbox = PageBoundingBox_new, page_index = mem_index, heap = mem_heap \<rparr>"

text \<open>
  \<open>get_free_space\<close>: the pointer difference between \<open>cdata() + last_offset\<close> and
  \<open>page_index + count\<close>, returned as \<open>int\<close>, that is cut to 32 bits and read signed.
\<close>

definition get_free_space :: "akumuli_def \<Rightarrow> PageHeader \<Rightarrow> int" where
  "get_free_space d p =
     sint (word_of_int
        (int (unat (last_offset p))
           - (int (sizeof_PageHeader d) + int sizeof_EntryOffset * int (unat (count p))))
        :: 32 word)"

definition update_bounding_box :: "PageHeader \<Rightarrow> ParamId \<Rightarrow> TimeStamp \<Rightarrow> PageHeader" where
  "update_bounding_box p param t =
     (let b1 = (if param > max_id (bbox p) then (bbox p)\<lparr>max_id := param\<rparr> else bbox p);
          b2 = (if param < min_id b1 then b1\<lparr>min_id := param\<rparr> else b1);
          b3 = (if TimeStamp_greater t (max_timestamp b2) then b2\<lparr>max_timestamp := t\<rparr> else b2);
          b4 = (if TimeStamp_less t (min_timestamp b3) then b3\<lparr>min_timestamp := t\<rparr> else b3)
      in p\<lparr>bbox := b4\<rparr>)"

definition inside_bbox :: "PageHeader \<Rightarrow> ParamId \<Rightarrow> TimeStamp \<Rightarrow> bool" where
  "inside_bbox p param t =
     (TimeStamp_le t (max_timestamp (bbox p))
      \<and> TimeStamp_ge t (min_timestamp (bbox p))
      \<and> param \<le> max_id (bbox p)
      \<and> param \<ge> min_id (bbox p))"

definition reuse :: "PageHeader \<Rightarrow> PageHeader" where
  "reuse p = p\<lparr> count := 0, open_count := open_count p + 1,
                last_offset := ucast (page_length p - 1), bbox := PageBoundingBox_new \<rparr>"

definition close :: "PageHeader \<Rightarrow> PageHeader" where
  "close p = p\<lparr> close_count := close_count p + 1 \<rparr>"

subsection \<open>Appending a record\<close>

text \<open>
  \<open>add_entry(Entry const&)\<close>. \<open>space_required\<close> is a \<open>size_t\<close>; the comparison with the
  \<open>int\<close> free space converts the latter to \<open>size_t\<close> (64 bits), so a negative free space
  compares as a huge one. The new \<open>last_offset\<close> is the pointer difference cut to 32 bits.

  \<open>memcpy\<close> moves \<open>entry.length\<close> bytes starting at the entry's address. The member
  \<open>value[]\<close> begins \<open>sizeof(uint32_t)\<close> bytes before the end of the structure
  (\<open>Entry::get_size\<close> is \<open>sizeof(Entry) - sizeof(uint32_t) + load_size\<close>), so the bytes
  moved are the \<open>sizeof(Entry) - 4\<close> bytes of the fixed members and the leading
  \<open>length - (sizeof(Entry) - 4)\<close> bytes of \<open>value[]\<close>.

  The space test reserves the slot \<open>page_index[count]\<close> together with the record, so on a
  page whose free space is not negative the record begins at or above the end of that slot
  and the write of the slot leaves the record as it was copied.
\<close>

definition sizeof_uint32 :: nat where
  "sizeof_uint32 = 4"

definition stored_record :: "akumuli_def \<Rightarrow> Entry \<Rightarrow> Entry" where
  "stored_record d entry =
     entry\<lparr> value_bytes :=
              take (unat (length_field entry) - (sizeof_Entry d - sizeof_uint32))
                (value_bytes entry) \<rparr>"

definition add_entry :: "akumuli_def \<Rightarrow> PageHeader \<Rightarrow> Entry \<Rightarrow> write_status \<times> PageHeader" where
  "add_entry d p entry =
     (let space_required = unat (length_field entry) + sizeof_EntryOffset in
      if unat (length_field entry) < sizeof_Entry d then (AKU_WRITE_STATUS_BAD_DATA, p)
      else if space_required > unat (word_of_int (get_free_space d p) :: 64 word)
        then (AKU_WRITE_STATUS_OVERFLOW, p)
      else
        let free_slot = (word_of_int (int (unat (last_offset p)) - int (unat (length_field entry)))
                           :: 32 word);
            p1 = p\<lparr> heap := (heap p)(free_slot := stored_record d entry) \<rparr>;
            p2 = p1\<lparr> last_offset := free_slot \<rparr>;
            p3 = p2\<lparr> page_index := (page_index p2)(count p2 := last_offset p2) \<rparr>;
            p4 = p3\<lparr> count := count p3 + 1 \<rparr>
        in (AKU_WRITE_STATUS_SUCCESS, update_bounding_box p4 (param_id entry) (time entry)))"

text \<open>
  A sequence of calls of \<open>add_entry(Entry const&)\<close> on one page: the statuses returned and
  the page left.
\<close>

fun add_entries :: "akumuli_def \<Rightarrow> PageHeader \<Rightarrow> Entry list \<Rightarrow> write_status list \<times> PageHeader" where
  "add_entries d p [] = ([], p)"
| "add_entries d p (e # es) =
     (case add_entry d p e of (s, p1) \<Rightarrow>
        (case add_entries d p1 es of (ss, p2) \<Rightarrow> (s # ss, p2)))"

text \<open>The record that slot \<open>i\<close> of the index refers to.\<close>

definition entry_at :: "PageHeader \<Rightarrow> 32 word \<Rightarrow> Entry" where
  "entry_at p i = heap p (page_index p i)"

subsection \<open>Appending a record given as \<open>Entry2\<close>\<close>

text \<open>
  \<open>Entry2\<close> has a parameter, a time stamp and an \<open>aku_MemRange\<close>, the address and length
  of the payload; \<open>address\<close> stands for the bytes found at that address.
\<close>

record aku_MemRange =
  address :: "8 word list"
  MemRange_length :: "32 word"

record Entry2 =
  Entry2_param_id :: ParamId
  Entry2_time :: TimeStamp
  Entry2_range :: aku_MemRange

text \<open>
  The records and the slots of the index share the bytes of the page: slot \<open>i\<close> lies
  \<open>sizeof(PageHeader) + 4 * i\<close> bytes from its start. Of the ways in which the two can
  meet, the model follows the one that the space tests leave open on a page whose free space
  is not negative: \<open>page_index[count] = last_offset\<close> is executed after the record was
  written at \<open>last_offset\<close>, and when the record begins inside the four bytes of that slot,
  the slot's bytes replace the bytes of the record they lie on.

  Modelled from the spec: the layout of the structures belongs to page.h, which is not part
  of the sources at hand. Both forms of a record are read through the same offset as an
  \<open>Entry\<close>; the model takes \<open>param_id\<close>, the member that both constructors initialise
  first, to be the first four bytes of a stored record, followed at a distance of at least
  four bytes by the time stamp, and the integers to be stored with the least significant
  byte first. A record beginning \<open>k\<close> bytes into the slot then keeps the last \<open>k\<close> bytes of
  its \<open>param_id\<close> and has the others replaced by the last \<open>4 - k\<close> bytes of the slot.
\<close>

definition index_slot_offset :: "akumuli_def \<Rightarrow> 32 word \<Rightarrow> nat" where
  "index_slot_offset d i = sizeof_PageHeader d + sizeof_EntryOffset * unat i"

definition bytes_of_uint32 :: "32 word \<Rightarrow> 8 word list" where
  "bytes_of_uint32 w = [ucast w, ucast (drop_bit 8 w), ucast (drop_bit 16 w), ucast (drop_bit 24 w)]"

definition uint32_of_bytes :: "8 word list \<Rightarrow> 32 word" where
  "uint32_of_bytes bs = foldr (\<lambda>b w. ucast b + 256 * w) bs 0"

definition write_index_slot :: "akumuli_def \<Rightarrow> PageHeader \<Rightarrow> PageHeader" where
  "write_index_slot d p =
     (let slot = index_slot_offset d (count p);
          record_start = unat (last_offset p);
          k = record_start - slot;
          written = heap p (last_offset p);
          overlaid = written\<lparr> param_id :=
                        uint32_of_bytes (drop k (bytes_of_uint32 (last_offset p))
                                         @ drop (4 - k) (bytes_of_uint32 (param_id written))) \<rparr>
      in p\<lparr> page_index := (page_index p)(count p := last_offset p),
            heap := (if slot \<le> record_start \<and> record_start < slot + sizeof_EntryOffset
                     then (heap p)(last_offset p := overlaid) else heap p) \<rparr>)"

text \<open>
  Modelled from the spec: what an \<open>Entry2\<close> record shows when it is read as an \<open>Entry\<close>.
  The spec says that the two forms remain readable through the same offset, the length of
  the payload lying next to the fixed members: the view has the parameter and time stamp
  of the \<open>Entry2\<close>, the length word that was written and the payload bytes that were copied.
\<close>

definition Entry2_as_Entry :: "Entry2 \<Rightarrow> Entry" where
  "Entry2_as_Entry entry =
     \<lparr> param_id = Entry2_param_id entry, time = Entry2_time entry,
       length_field = MemRange_length (Entry2_range entry),
       value_bytes = take (unat (MemRange_length (Entry2_range entry)))
                       (address (Entry2_range entry)) \<rparr>"

text \<open>
  \<open>add_entry(Entry2 const&)\<close>. The space test asks for the payload, \<open>sizeof(Entry2)\<close> and
  one slot of the index; the code then writes, downwards from \<open>last_offset\<close>, the payload,
  the length word of \<open>sizeof(uint32_t)\<close> bytes and the \<open>Entry2\<close> structure, and after that
  the slot.
\<close>

definition add_entry2 :: "akumuli_def \<Rightarrow> PageHeader \<Rightarrow> Entry2 \<Rightarrow> write_status \<times> PageHeader" where
  "add_entry2 d p entry =
     (let space_required = unat (MemRange_length (Entry2_range entry)) + sizeof_Entry2 d
                             + sizeof_EntryOffset in
      if space_required > unat (word_of_int (get_free_space d p) :: 64 word)
        then (AKU_WRITE_STATUS_OVERFLOW, p)
      else
        let free_slot = (word_of_int (int (unat (last_offset p))
                                      - int (unat (MemRange_length (Entry2_range entry)))
                                      - int sizeof_uint32 - int (sizeof_Entry2 d)) :: 32 word);
            p1 = p\<lparr> heap := (heap p)(free_slot := Entry2_as_Entry entry) \<rparr>;
            p2 = p1\<lparr> last_offset := free_slot \<rparr>;
            p3 = write_index_slot d p2;
            p4 = p3\<lparr> count := count p3 + 1 \<rparr>
        in (AKU_WRITE_STATUS_SUCCESS,
            update_bounding_box p4 (Entry2_param_id entry) (Entry2_time entry)))"

text \<open>A sequence of calls of either overload of \<open>add_entry\<close> on one page.\<close>

datatype add_entry_argument = as_Entry Entry | as_Entry2 Entry2

fun add_entry_any ::
  "akumuli_def \<Rightarrow> PageHeader \<Rightarrow> add_entry_argument \<Rightarrow> write_status \<times> PageHeader" where
  "add_entry_any d p (as_Entry entry) = add_entry d p entry"
| "add_entry_any d p (as_Entry2 entry) = add_entry2 d p entry"

fun add_entry_calls ::
  "akumuli_def \<Rightarrow> PageHeader \<Rightarrow> add_entry_argument list \<Rightarrow> write_status list \<times> PageHeader" where
  "add_entry_calls d p [] = ([], p)"
| "add_entry_calls d p (a # as) =
     (case add_entry_any d p a of (s, p1) \<Rightarrow>
        (case add_entry_calls d p1 as of (ss, p2) \<Rightarrow> (s # ss, p2)))"

text \<open>
  The free space of a page as a number: the distance from the end of the index to
  \<open>last_offset\<close>, before \<open>get_free_space\<close> cuts it to an \<open>int\<close>.
\<close>

definition free_exact :: "akumuli_def \<Rightarrow> PageHeader \<Rightarrow> int" where
  "free_exact d p =
     int (unat (last_offset p))
       - (int (sizeof_PageHeader d) + int sizeof_EntryOffset * int (unat (count p)))"

text \<open>
  The records lie clear of the index: the free space is not negative and fits an \<open>int\<close>,
  and every record the index refers to begins at or above \<open>last_offset\<close>.
\<close>

definition records_clear :: "akumuli_def \<Rightarrow> PageHeader \<Rightarrow> bool" where
  "records_clear d p =
     (0 \<le> free_exact d p \<and> free_exact d p < 2147483648
      \<and> (\<forall>i. unat i < unat (count p) \<longrightarrow> unat (last_offset p) \<le> unat (page_index p i)))"

text \<open>The bounding box contains the parameter and time stamp of every indexed record.\<close>

definition bbox_covers :: "PageHeader \<Rightarrow> bool" where
  "bbox_covers p =
     (\<forall>i. unat i < unat (count p) \<longrightarrow> inside_bbox p (param_id (entry_at p i)) (time (entry_at p i)))"

section \<open>Concrete values used in the examples\<close>

text \<open>
  A 64-bit layout of the structures, a cutoff of 64 and the direction codes 0 and 1; an
  empty page of 4096 bytes whose index and records are read as zeroes (in the mapped file
  the bytes at offset 0 are those of the header itself); a record of \<open>sizeof(Entry)\<close> bytes, whose
  payload is the one word of \<open>value[]\<close> that the structure includes, and a record of 28
  bytes with a payload of 8 bytes.
\<close>

definition example_def :: akumuli_def where
  "example_def = \<lparr> sizeof_Entry = 24, sizeof_Entry2 = 32, sizeof_PageHeader = 64,
       AKU_INTERPOLATION_SEARCH_CUTOFF = 64,
       AKU_CURSOR_DIR_FORWARD = 0, AKU_CURSOR_DIR_BACKWARD = 1 \<rparr>"

definition blank_index :: "32 word \<Rightarrow> EntryOffset" where
  "blank_index = (\<lambda>_. 0)"

definition blank_heap :: "EntryOffset \<Rightarrow> Entry" where
  "blank_heap = (\<lambda>_. \<lparr> param_id = 0, time = 0, length_field = 0, value_bytes = [] \<rparr>)"

definition empty_page :: PageHeader where
  "empty_page = PageHeader_new blank_index blank_heap Index 0 4096 0"

definition sample :: "ParamId \<Rightarrow> TimeStamp \<Rightarrow> Entry" where
  "sample a t = \<lparr> param_id = a, time = t, length_field = 24, value_bytes = [0, 0, 0, 0] \<rparr>"

definition payload_sample :: Entry where
  "payload_sample =
     \<lparr> param_id = 7, time = 100, length_field = 28, value_bytes = [1, 2, 3, 4, 5, 6, 7, 8] \<rparr>"

text \<open>
  A page of 105 bytes, with 40 bytes free after the header, and an \<open>Entry2\<close> with a
  payload of four bytes, for which the space test asks for exactly 40 bytes.
\<close>

definition snug_page :: PageHeader where
  "snug_page = PageHeader_new blank_index blank_heap Index 0 105 0"

definition snug_entry2 :: Entry2 where
  "snug_entry2 =
     \<lparr> Entry2_param_id = 7, Entry2_time = 100,
       Entry2_range = \<lparr> address = [1, 2, 3, 4], MemRange_length = 4 \<rparr> \<rparr>"

text \<open>A page of 66 bytes: one byte is free after the header.\<close>

definition tiny_page :: PageHeader where
  "tiny_page = PageHeader_new blank_index blank_heap Index 0 66 0"

section \<open>Sorting the index\<close>

text \<open>
  Modelled from the spec: \<open>Akumuli::insertion_sort\<close> is declared in sort.h, which is not part
  of the sources at hand. The spec says that \<open>sort()\<close> reorders \<open>page_index[0..count)\<close>
  ascending with insertion sort, comparing through the function object it is given: each
  element in turn is inserted into the sorted part built from the elements before it, in
  front of the first element it compares smaller than.
\<close>

fun insert_by :: "('a \<Rightarrow> 'a \<Rightarrow> bool) \<Rightarrow> 'a \<Rightarrow> 'a list \<Rightarrow> 'a list" where
  "insert_by cmp x [] = [x]"
| "insert_by cmp x (y # ys) = (if cmp x y then x # y # ys else y # insert_by cmp x ys)"

definition insertion_sort :: "('a \<Rightarrow> 'a \<Rightarrow> bool) \<Rightarrow> 'a list \<Rightarrow> 'a list" where
  "insertion_sort cmp xs = foldl (\<lambda>sorted_part x. insert_by cmp x sorted_part) [] xs"

text \<open>
  The comparison that \<open>PageHeader::sort\<close> passes: the two records are read through their
  offsets and compared as \<open>std::tuple<uint64_t, uint32_t>(time.value, param_id)\<close>, that is
  lexicographically with the time stamp converted to an unsigned 64-bit number.
\<close>

definition sort_cmp :: "PageHeader \<Rightarrow> EntryOffset \<Rightarrow> EntryOffset \<Rightarrow> bool" where
  "sort_cmp p a b =
     (let ea = heap p a; eb = heap p b in
      unat (time ea) < unat (time eb)
      \<or> (unat (time ea) = unat (time eb) \<and> unat (param_id ea) < unat (param_id eb)))"

definition index_list :: "PageHeader \<Rightarrow> EntryOffset list" where
  "index_list p = map (\<lambda>k. page_index p (of_nat k)) [0 ..< unat (count p)]"

definition sort :: "PageHeader \<Rightarrow> PageHeader" where
  "sort p =
     (let sorted_offsets = insertion_sort (sort_cmp p) (index_list p) in
      p\<lparr> page_index :=
           (\<lambda>i. if unat i < unat (count p) then sorted_offsets ! unat i else page_index p i) \<rparr>)"

text \<open>The pair that the comparison of \<open>sort\<close> orders by, as one number.\<close>

definition unsigned_key :: "PageHeader \<Rightarrow> EntryOffset \<Rightarrow> nat" where
  "unsigned_key p a = unat (time (heap p a)) * 4294967296 + unat (param_id (heap p a))"

text \<open>
  The order the data model gives to records: time stamps as signed 64-bit numbers, then
  parameters.
\<close>

definition key_le :: "Entry \<Rightarrow> Entry \<Rightarrow> bool" where
  "key_le a b =
     (sint (time a) < sint (time b)
      \<or> (sint (time a) = sint (time b) \<and> unat (param_id a) \<le> unat (param_id b)))"

definition index_sorted :: "PageHeader \<Rightarrow> bool" where
  "index_sorted p = sorted_wrt key_le (map (heap p) (index_list p))"

section \<open>Single-parameter range search\<close>

record SingleParameterSearchQuery =
  param :: ParamId
  lowerbound :: TimeStamp
  upperbound :: TimeStamp
  direction :: "32 word"

definition validate_query :: "akumuli_def \<Rightarrow> SingleParameterSearchQuery \<Rightarrow> bool" where
  "validate_query d query =
     (if (direction query \<noteq> AKU_CURSOR_DIR_BACKWARD d \<and> direction query \<noteq> AKU_CURSOR_DIR_FORWARD d)
          \<or> TimeStamp_less (upperbound query) (lowerbound query)
      then False else True)"

text \<open>
  What a search does is recorded as the list of its events, in order: each read of a slot
  \<open>page_index[i]\<close> and each call it makes on the cursor. The value \<open>put\<close> returns is not
  looked at by \<open>search\<close>.
\<close>

datatype search_error = AKU_SEARCH_EBAD_ARG

datatype event =
  read_index "32 word" | put EntryOffset | complete | set_error search_error

text \<open>
  Operations whose behaviour C++ leaves undefined end the run with a value of their own:
  a division by zero and an overflow of signed 64-bit arithmetic.
\<close>

datatype undefined_behaviour = division_by_zero | signed_overflow

definition int64_range :: "int \<Rightarrow> bool" where
  "int64_range k = (- 9223372036854775808 \<le> k \<and> k \<le> 9223372036854775807)"

text \<open>Division of C++: the quotient is cut towards zero.\<close>

definition cpp_div :: "int \<Rightarrow> int \<Rightarrow> int" where
  "cpp_div a b = sgn a * sgn b * (\<bar>a\<bar> div \<bar>b\<bar>)"

text \<open>
  The probe expression
  \<open>((key - search_lower_bound) * (end - begin)) / (search_upper_bound - search_lower_bound)\<close>:
  the differences and the product are \<open>int64_t\<close> (the unsigned 32-bit \<open>end - begin\<close> is
  converted), and the quotient is cut to 32 bits when it is stored in \<open>probe_index\<close>.
\<close>

definition interpolation_probe ::
  "64 word \<Rightarrow> 64 word \<Rightarrow> 64 word \<Rightarrow> 32 word \<Rightarrow> undefined_behaviour + 32 word" where
  "interpolation_probe key lower upper width =
     (let distance = sint key - sint lower;
          divisor = sint upper - sint lower;
          product = distance * int (unat width)
      in if \<not> int64_range distance \<or> \<not> int64_range divisor \<or> \<not> int64_range product
           then Inl signed_overflow
         else if divisor = 0 then Inl division_by_zero
         else if \<not> int64_range (cpp_div product divisor) then Inl signed_overflow
         else Inr (word_of_int (cpp_div product divisor)))"

text \<open>The local variables of \<open>search\<close> that the two narrowing loops change.\<close>

record search_range =
  range_begin :: "32 word"
  range_end :: "32 word"
  probe_index :: "32 word"
  search_lower_bound :: "64 word"
  search_upper_bound :: "64 word"

text \<open>
  The interpolation loop, \<open>while (interpolation_search_quota--)\<close>: the first argument is
  the quota left. It returns the variables and the events it adds to \<open>evs\<close>.
\<close>

fun interpolation_search ::
  "nat \<Rightarrow> akumuli_def \<Rightarrow> PageHeader \<Rightarrow> 64 word \<Rightarrow> search_range \<Rightarrow> event list
     \<Rightarrow> undefined_behaviour + (search_range \<times> event list)" where
  "interpolation_search quota d p key s evs =
     (if quota = 0 then Inr (s, evs)
      else if range_end s - range_begin s < AKU_INTERPOLATION_SEARCH_CUTOFF d then Inr (s, evs)
      else
        case interpolation_probe key (search_lower_bound s) (search_upper_bound s)
               (range_end s - range_begin s) of
          Inl ub \<Rightarrow> Inl ub
        | Inr pi \<Rightarrow>
            if pi > range_begin s \<and> pi < range_end s then
              if sint (time (heap p (page_index p pi))) < sint key then
                interpolation_search (quota - 1) d p key
                  (s\<lparr> probe_index := pi, range_begin := pi + 1,
                      search_lower_bound := time (heap p (page_index p (pi + 1))) \<rparr>)
                  (evs @ [read_index pi, read_index (pi + 1)])
              else
                interpolation_search (quota - 1) d p key
                  (s\<lparr> probe_index := pi, range_end := pi - 1,
                      search_upper_bound := time (heap p (page_index p (pi - 1))) \<rparr>)
                  (evs @ [read_index pi, read_index (pi - 1)])
            else Inr (s\<lparr> probe_index := pi \<rparr>, evs))"

declare interpolation_search.simps [simp del]

text \<open>
  The binary search, \<open>while (end >= begin)\<close>. On arguments that \<open>search\<close> never passes the
  loop need not end, so its result is optional: \<open>None\<close> stands for a loop that runs forever.
  \<open>end == ~0\<close> compares the 32-bit \<open>end\<close> with all bits set.
\<close>

partial_function (option) binary_search ::
  "PageHeader \<Rightarrow> 64 word \<Rightarrow> search_range \<Rightarrow> event list \<Rightarrow> (search_range \<times> event list) option" where
  "binary_search p key s evs =
     (if range_end s \<ge> range_begin s then
        (let pi = range_begin s + (range_end s - range_begin s) div 2;
             probe = time (heap p (page_index p pi));
             s1 = s\<lparr> probe_index := pi \<rparr>;
             evs1 = evs @ [read_index pi]
         in if probe = key then Some (s1, evs1)
            else if sint probe < sint key then
              (if pi + 1 = count p then Some (s1\<lparr> range_begin := pi + 1 \<rparr>, evs1)
               else binary_search p key (s1\<lparr> range_begin := pi + 1 \<rparr>) evs1)
            else
              (if pi - 1 = - 1 then Some (s1\<lparr> range_end := pi - 1 \<rparr>, evs1)
               else binary_search p key (s1\<lparr> range_end := pi - 1 \<rparr>) evs1))
      else Some (s, evs))"

text \<open>
  The two scans after the label \<open>SCAN\<close>. \<open>current_index\<close> is the value of \<open>probe_index\<close>
  before it is stepped. The index is a 32-bit counter that wraps, so each scan meets its
  last index after at most \<open>2^32\<close> steps.
\<close>

definition probe_in_time_range :: "SingleParameterSearchQuery \<Rightarrow> Entry \<Rightarrow> bool" where
  "probe_in_time_range query probe_entry =
     (TimeStamp_le (lowerbound query) (time probe_entry)
      \<and> TimeStamp_ge (upperbound query) (time probe_entry))"

definition scan_step :: "PageHeader \<Rightarrow> SingleParameterSearchQuery \<Rightarrow> 32 word \<Rightarrow> event list" where
  "scan_step p query current_index =
     (let probe_offset = page_index p current_index;
          probe_entry = heap p probe_offset
      in read_index current_index #
         (if param_id probe_entry = param query \<and> probe_in_time_range query probe_entry
          then [put probe_offset] else []))"

function scan_backward :: "PageHeader \<Rightarrow> SingleParameterSearchQuery \<Rightarrow> 32 word \<Rightarrow> event list" where
  "scan_backward p query current_index =
     scan_step p query current_index @
     (if TimeStamp_less (time (heap p (page_index p current_index))) (lowerbound query)
         \<or> current_index = 0
      then [complete]
      else scan_backward p query (current_index - 1))"
  by pat_completeness auto
termination
  by (relation "measure (\<lambda>(p, query, current_index). unat current_index)")
     (auto simp add: unat_minus_one word_gt_0 unat_gt_0)

function scan_forward ::
  "PageHeader \<Rightarrow> SingleParameterSearchQuery \<Rightarrow> 32 word \<Rightarrow> 32 word \<Rightarrow> event list" where
  "scan_forward p query max_index current_index =
     scan_step p query current_index @
     (if TimeStamp_greater (time (heap p (page_index p current_index))) (upperbound query)
         \<or> current_index = max_index
      then [complete]
      else scan_forward p query max_index (current_index + 1))"
  by pat_completeness auto
termination
proof (relation "measure (\<lambda>(p, query, max_index, current_index). unat (max_index - current_index))",
    goal_cases)
  case 1
  show ?case by simp
next
  case (2 p query max_index current_index)
  then have "max_index - current_index \<noteq> 0" by auto
  then have lt: "unat (max_index - current_index - 1) < unat (max_index - current_index)"
    by (simp add: unat_minus_one unat_gt_0)
  have e: "max_index - (current_index + 1) = max_index - current_index - 1" by simp
  show ?case unfolding in_measure prod.case e by (rule lt)
qed

declare scan_backward.simps [simp del] scan_forward.simps [simp del]

definition scan :: "bool \<Rightarrow> PageHeader \<Rightarrow> SingleParameterSearchQuery \<Rightarrow> 32 word \<Rightarrow> 32 word \<Rightarrow> event list" where
  "scan is_backward p query max_index start =
     (if is_backward then scan_backward p query start else scan_forward p query max_index start)"

text \<open>
  \<open>PageHeader::search\<close>, in two parts. \<open>search_bisect_and_scan\<close> is the code from the
  binary search to the end; \<open>search\<close> is the code before it, which either narrows the range
  by interpolation, or jumps to the label \<open>SCAN\<close>, or completes the cursor at once. The
  result is \<open>None\<close> when the binary search does not end, \<open>Inl\<close> when the probe expression
  has no defined value, and otherwise the events in order.
\<close>

definition search_bisect_and_scan ::
  "bool \<Rightarrow> PageHeader \<Rightarrow> SingleParameterSearchQuery \<Rightarrow> 32 word \<Rightarrow> 64 word \<Rightarrow> search_range
     \<Rightarrow> event list \<Rightarrow> (undefined_behaviour + event list) option" where
  "search_bisect_and_scan is_backward p query max_index key s evs =
     (case binary_search p key s evs of
        None \<Rightarrow> None
      | Some (s', evs') \<Rightarrow>
          Some (Inr (evs' @ scan is_backward p query max_index (probe_index s'))))"

definition search ::
  "akumuli_def \<Rightarrow> PageHeader \<Rightarrow> SingleParameterSearchQuery
     \<Rightarrow> (undefined_behaviour + event list) option" where
  "search d p query =
     (if \<not> validate_query d query then Some (Inr [set_error AKU_SEARCH_EBAD_ARG])
      else
        let is_backward = (direction query = AKU_CURSOR_DIR_BACKWARD d);
            max_index = count p - 1;
            key = (if is_backward then upperbound query else lowerbound query);
            s0 = \<lparr> range_begin = 0, range_end = max_index, probe_index = 0,
                   search_lower_bound = min_timestamp (bbox p),
                   search_upper_bound = max_timestamp (bbox p) \<rparr>
        in if sint key \<le> sint (max_timestamp (bbox p)) \<and> sint key \<ge> sint (min_timestamp (bbox p))
           then
             (case interpolation_search 5 d p key s0 [] of
                Inl ub \<Rightarrow> Some (Inl ub)
              | Inr (s, evs) \<Rightarrow> search_bisect_and_scan is_backward p query max_index key s evs)
           else if sint key > sint (max_timestamp (bbox p)) then
             (if is_backward then Some (Inr (scan is_backward p query max_index max_index))
              else Some (Inr [complete]))
           else if sint key < sint (min_timestamp (bbox p)) then
             (if \<not> is_backward then Some (Inr (scan is_backward p query max_index 0))
              else Some (Inr [complete]))
           else search_bisect_and_scan is_backward p query max_index key s0 [])"

text \<open>The slots a run read and the offsets it handed to the cursor.\<close>

definition reads_of :: "event list \<Rightarrow> 32 word list" where
  "reads_of evs = concat (map (\<lambda>e. case e of read_index i \<Rightarrow> [i] | _ \<Rightarrow> []) evs)"

definition puts_of :: "event list \<Rightarrow> EntryOffset list" where
  "puts_of evs = concat (map (\<lambda>e. case e of put off \<Rightarrow> [off] | _ \<Rightarrow> []) evs)"

text \<open>Queries and pages of the examples.\<close>

definition query_of :: "ParamId \<Rightarrow> TimeStamp \<Rightarrow> TimeStamp \<Rightarrow> 32 word \<Rightarrow> SingleParameterSearchQuery" where
  "query_of a lo hi dir = \<lparr> param = a, lowerbound = lo, upperbound = hi, direction = dir \<rparr>"

text \<open>Three records of parameter 1 with the same time stamp 5, appended in turn, all synced.\<close>

definition same_time_page :: PageHeader where
  "same_time_page =
     (snd (add_entries example_def empty_page [sample 1 5, sample 1 5, sample 1 5]))
       \<lparr> sync_index := 3 \<rparr>"

text \<open>One record appended and none synced.\<close>

definition unsynced_page :: PageHeader where
  "unsynced_page = snd (add_entries example_def empty_page [sample 7 100])"

text \<open>Sixty-five records of parameter 1 with the same time stamp 5, appended in turn.\<close>

definition crowded_page :: PageHeader where
  "crowded_page = snd (add_entries example_def empty_page (replicate 65 (sample 1 5)))"

text \<open>
  A record answers a query when it has the query's parameter and its time stamp lies
  between the bounds, both included, in the signed order.
\<close>

definition matches :: "SingleParameterSearchQuery \<Rightarrow> Entry \<Rightarrow> bool" where
  "matches query e =
     (param_id e = param query
      \<and> sint (lowerbound query) \<le> sint (time e) \<and> sint (time e) \<le> sint (upperbound query))"

text \<open>Every slot a run read lies below \<open>count\<close>, respectively below \<open>sync_index\<close>.\<close>

definition reads_below :: "PageHeader \<Rightarrow> event list \<Rightarrow> bool" where
  "reads_below p evs = list_all (\<lambda>i. unat i < unat (count p)) (reads_of evs)"

definition reads_synced :: "PageHeader \<Rightarrow> event list \<Rightarrow> bool" where
  "reads_synced p evs = list_all (\<lambda>i. unat i < unat (sync_index p)) (reads_of evs)"

text \<open>The range of the narrowing loops is not empty and ends below \<open>count\<close>.\<close>

definition range_inside :: "PageHeader \<Rightarrow> search_range \<Rightarrow> bool" where
  "range_inside p s =
     (unat (range_begin s) \<le> unat (range_end s) \<and> unat (range_end s) < unat (count p))"

text \<open>The free space of a page under the layout of the examples.\<close>

definition free_bytes :: "PageHeader \<Rightarrow> int" where
  "free_bytes p = int (unat (last_offset p)) - (64 + 4 * int (unat (count p)))"

section \<open>Volumes and storage (storage.cpp)\<close>

text \<open>
  A volume is a mapped file with the page at its base; \<open>mmap_size\<close> is what
  \<open>mmap_.get_size()\<close> returns. The cache and the settings of a volume play no part in what
  follows.
\<close>

record Volume =
  page :: PageHeader
  mmap_size :: "64 word"

text \<open>
  \<open>reallocate_disc_space\<close> keeps \<open>page_id\<close>, the two counters and the type, remaps the file
  and constructs a new header in it. Modelled from the spec: \<open>remap_file_destructive\<close>
  belongs to util.h, which is not part of the sources at hand; the spec says that the
  contents are discarded, and the new mapping is taken to hold zeroes.
\<close>

definition reallocate_disc_space :: "Volume \<Rightarrow> Volume" where
  "reallocate_disc_space v =
     v\<lparr> page :=
          (PageHeader_new blank_index blank_heap (type (page v)) 0 (mmap_size v) (page_id (page v)))
            \<lparr> open_count := open_count (page v), close_count := close_count (page v) \<rparr> \<rparr>"

definition Volume_open :: "Volume \<Rightarrow> Volume" where
  "Volume_open v = v\<lparr> page := reuse (page v) \<rparr>"

definition Volume_close :: "Volume \<Rightarrow> Volume" where
  "Volume_close v = v\<lparr> page := close (page v) \<rparr>"

text \<open>
  The storage: the vector of volumes, the atomic \<open>int\<close> \<open>active_volume_index_\<close>, and the
  position in the vector of the volume that the pointer \<open>active_volume_\<close> refers to
  (\<open>active_page_\<close> is the page of that volume). Failures are values: \<open>vector::at\<close> throws
  out of range, and a remainder by an empty vector's size is undefined.
\<close>

record Storage =
  volumes :: "Volume list"
  active_volume_index :: "32 word"
  active_volume :: nat

datatype storage_failure = out_of_range | remainder_by_zero

text \<open>
  \<open>advance_volume_\<close>: \<open>active_volume_index_ % volumes_.size()\<close> converts the \<open>int\<close> to
  \<open>size_t\<close>.
\<close>

definition advance_volume :: "Storage \<Rightarrow> 32 word \<Rightarrow> storage_failure + Storage" where
  "advance_volume st local_rev =
     (if local_rev = active_volume_index st then
        let vols1 = (volumes st)[active_volume st := Volume_close (volumes st ! active_volume st)];
            next_index = active_volume_index st + 1
        in if vols1 = [] then Inl remainder_by_zero
           else
             let k = unat (scast next_index :: 64 word) mod List.length vols1;
                 vols2 = vols1[k := reallocate_disc_space (vols1 ! k)];
                 vols3 = vols2[k := Volume_open (vols2 ! k)]
             in Inr (st\<lparr> volumes := vols3, active_volume_index := next_index, active_volume := k \<rparr>)
      else Inr st)"

text \<open>
  \<open>select_active_page\<close>: the loop keeps the last index whose \<open>open_count\<close> is not smaller
  than the largest seen (both start at -1).
\<close>

definition select_max :: "Volume list \<Rightarrow> int \<times> int" where
  "select_max vols =
     foldl (\<lambda>(max_index, max_overwrites) i.
              if int (unat (open_count (page (vols ! i)))) \<ge> max_overwrites
              then (int i, int (unat (open_count (page (vols ! i)))))
              else (max_index, max_overwrites))
           (- 1, - 1) [0 ..< List.length vols]"

definition select_active_page :: "Storage \<Rightarrow> storage_failure + Storage" where
  "select_active_page st =
     (let max_index = fst (select_max (volumes st)) in
      if max_index < 0 \<or> max_index \<ge> int (List.length (volumes st)) then Inl out_of_range
      else
        let st1 = st\<lparr> active_volume_index := word_of_int max_index,
                      active_volume := nat max_index \<rparr>;
            active_page = page (volumes st1 ! active_volume st1)
        in if close_count active_page = open_count active_page
           then advance_volume st1 (active_volume_index st1)
           else Inr st1)"

text \<open>
  \<open>create_page_file\<close> as far as the header goes: a new index page of the given number,
  and the page numbered 0 reused at once. The page size \<open>AKU_MAX_PAGE_SIZE\<close> comes from
  akumuli\_def.h and is the first argument.
\<close>

definition create_page_file :: "64 word \<Rightarrow> nat \<Rightarrow> Volume" where
  "create_page_file max_page_size page_index_no =
     (let index_page =
            PageHeader_new blank_index blank_heap Index 0 max_page_size (of_nat page_index_no)
      in \<lparr> page = (if page_index_no = 0 then reuse index_page else index_page),
           mmap_size = max_page_size \<rparr>)"

text \<open>The two counters of each volume, in order.\<close>

definition counters :: "Storage \<Rightarrow> (nat \<times> nat) list" where
  "counters st = map (\<lambda>v. (unat (open_count (page v)), unat (close_count (page v)))) (volumes st)"

text \<open>
  A new storage of two volumes of 4096 bytes as it is on disc when the process stops
  inside \<open>advance_volume_\<close>, after the active volume 0 was closed and before volume 1 was
  opened.
\<close>

definition interrupted_storage :: Storage where
  "interrupted_storage =
     \<lparr> volumes = [Volume_close (create_page_file 4096 0), create_page_file 4096 1],
       active_volume_index = 0, active_volume = 0 \<rparr>"

text \<open>
  \<open>Storage::search(InternalCursor* cursor)\<close> has an empty body. It is given the calls the
  cursor has received so far and returns the storage and the cursor as they are.
\<close>

definition Storage_search :: "Storage \<Rightarrow> event list \<Rightarrow> Storage \<times> event list" where
  "Storage_search st cursor = (st, cursor)"

text \<open>
  Modelled from the spec: the search over all volumes that the spec describes, and the
  fan-in merge it is built on (cursor.h declares \<open>FanInCursorCombinator\<close>; its code is not
  part of the sources at hand). Each volume's page is searched with its own cursor; a
  result is a volume number with an offset; the merge repeatedly takes the smallest head
  among the sources, in the order of (timestamp, param\_id), ascending for a forward query
  and descending for a backward one.
\<close>

type_synonym CursorResult = "nat \<times> EntryOffset"

fun merge_two :: "('a \<Rightarrow> 'a \<Rightarrow> bool) \<Rightarrow> 'a list \<Rightarrow> 'a list \<Rightarrow> 'a list" where
  "merge_two le [] ys = ys"
| "merge_two le xs [] = xs"
| "merge_two le (x # xs) (y # ys) =
     (if le x y then x # merge_two le xs (y # ys) else y # merge_two le (x # xs) ys)"

definition spec_fan_in :: "('a \<Rightarrow> 'a \<Rightarrow> bool) \<Rightarrow> 'a list list \<Rightarrow> 'a list" where
  "spec_fan_in le sources = foldr (merge_two le) sources []"

definition result_entry :: "Storage \<Rightarrow> CursorResult \<Rightarrow> Entry" where
  "result_entry st r = heap (page (volumes st ! fst r)) (snd r)"

definition spec_volume_results ::
  "akumuli_def \<Rightarrow> Storage \<Rightarrow> SingleParameterSearchQuery \<Rightarrow> nat \<Rightarrow> CursorResult list" where
  "spec_volume_results d st query k =
     (case search d (page (volumes st ! k)) query of
        Some (Inr evs) \<Rightarrow> map (\<lambda>off. (k, off)) (puts_of evs)
      | _ \<Rightarrow> [])"

definition spec_storage_search ::
  "akumuli_def \<Rightarrow> Storage \<Rightarrow> SingleParameterSearchQuery \<Rightarrow> CursorResult list" where
  "spec_storage_search d st query =
     spec_fan_in
       (\<lambda>a b. if direction query = AKU_CURSOR_DIR_BACKWARD d
               then key_le (result_entry st b) (result_entry st a)
               else key_le (result_entry st a) (result_entry st b))
       (map (spec_volume_results d st query) [0 ..< List.length (volumes st)])"

text \<open>A storage whose only volume holds the page with one record.\<close>

definition one_volume_storage :: Storage where
  "one_volume_storage =
     \<lparr> volumes = [\<lparr> page = unsynced_page, mmap_size = 4096 \<rparr>],
       active_volume_index = 0, active_volume = 0 \<rparr>"

text \<open>
  The state of the ring between rotations: the active volume is open, that is opened once
  more than closed, every other volume is closed as often as opened, and no counter is
  at its last value.
\<close>

definition ring_at_rest :: "Storage \<Rightarrow> bool" where
  "ring_at_rest st =
     (active_volume st < List.length (volumes st)
      \<and> list_all (\<lambda>v. unat (open_count (page v)) < 4294967295) (volumes st)
      \<and> list_all (\<lambda>j. if j = active_volume st
                       then unat (open_count (page (volumes st ! j)))
                              = unat (close_count (page (volumes st ! j))) + 1
                       else open_count (page (volumes st ! j)) = close_count (page (volumes st ! j)))
            [0 ..< List.length (volumes st)])"

section \<open>Conversions between the integer types of the code\<close>

lemma int_mod_shift:
  fixes x y m k :: int
  assumes "y = x + k * m" "0 \<le> y" "y < m"
  shows "x mod m = y"
proof -
  have "x mod m = (x + k * m) mod m" by simp
  also have "\<dots> = y mod m" using assms(1) by simp
  also have "\<dots> = y" using assms(2,3) by simp
  finally show ?thesis .
qed

lemma int32_of_int:
  "sint (word_of_int F :: 32 word) = (F + 2147483648) mod 4294967296 - 2147483648"
  by (simp add: int_word_sint)

lemma size_t_of_int: "uint (word_of_int k :: 64 word) = k mod 18446744073709551616"
  by (simp add: uint_word_of_int)

lemma int32_small:
  "- 2147483648 \<le> F \<Longrightarrow> F < 2147483648 \<Longrightarrow> sint (word_of_int F :: 32 word) = F"
  unfolding int32_of_int
  using int_mod_shift [of "F + 2147483648" "F + 2147483648" 0 4294967296] by simp

lemma int32_high:
  "2147483648 \<le> F \<Longrightarrow> F < 4294967296 \<Longrightarrow> sint (word_of_int F :: 32 word) = F - 4294967296"
  unfolding int32_of_int
  using int_mod_shift [of "F + 2147483648 - 4294967296" "F + 2147483648" "-1" 4294967296] by simp

lemma size_t_nonneg:
  "0 \<le> k \<Longrightarrow> k < 18446744073709551616 \<Longrightarrow> uint (word_of_int k :: 64 word) = k"
  unfolding size_t_of_int by simp

lemma size_t_neg:
  "- 18446744073709551616 \<le> k \<Longrightarrow> k < 0
     \<Longrightarrow> uint (word_of_int k :: 64 word) = k + 18446744073709551616"
  unfolding size_t_of_int
  using int_mod_shift [of "k + 18446744073709551616" k 1 18446744073709551616] by simp

text \<open>
  A free space between 0 and \<open>2^32\<close> never compares smaller after the two conversions
  (to \<open>int\<close>, then to \<open>size_t\<close>) than it is.
\<close>

lemma free_space_as_size_t:
  fixes F :: int
  assumes "0 \<le> F" "F < 4294967296"
  shows "F \<le> uint (word_of_int (sint (word_of_int F :: 32 word)) :: 64 word)"
proof (cases "F < 2147483648")
  case True
  have s: "sint (word_of_int F :: 32 word) = F"
    using assms True by (intro int32_small) linarith+
  have "uint (word_of_int F :: 64 word) = F"
    using assms by (intro size_t_nonneg) linarith+
  then show ?thesis unfolding s by linarith
next
  case False
  have s: "sint (word_of_int F :: 32 word) = F - 4294967296"
    using assms False by (intro int32_high) linarith+
  have "uint (word_of_int (F - 4294967296) :: 64 word) = F - 4294967296 + 18446744073709551616"
    using assms False by (intro size_t_neg) linarith+
  then show ?thesis unfolding s by linarith
qed

lemma unat32_lt: "unat (w :: 32 word) < 4294967296"
  using unsigned_less [of w, where 'a = nat] by simp

lemma unat32_of_int:
  "0 \<le> k \<Longrightarrow> k < 4294967296 \<Longrightarrow> unat (word_of_int k :: 32 word) = nat k"
  by (simp add: unsigned_of_int take_bit_eq_mod)

section \<open>Appending: success, failure, bounding box\<close>

lemmas example_simps =
  example_def_def empty_page_def tiny_page_def sample_def blank_index_def blank_heap_def
  PageHeader_new_def PageBoundingBox_new_def MIN_TIMESTAMP_def MAX_TIMESTAMP_def
  sizeof_EntryOffset_def sizeof_uint32_def

lemma bbox_update:
  "bbox (update_bounding_box p a t) =
     \<lparr> max_id = max (max_id (bbox p)) a, min_id = min (min_id (bbox p)) a,
       max_timestamp = (if sint t > sint (max_timestamp (bbox p)) then t else max_timestamp (bbox p)),
       min_timestamp = (if sint t < sint (min_timestamp (bbox p)) then t else min_timestamp (bbox p)) \<rparr>"
  by (cases "bbox p") (auto simp add: update_bounding_box_def Let_def TimeStamp_greater_def TimeStamp_less_def max_def min_def not_less)

lemma update_bounding_box_fields:
  "count (update_bounding_box p a t) = count p"
  "last_offset (update_bounding_box p a t) = last_offset p"
  "page_index (update_bounding_box p a t) = page_index p"
  "heap (update_bounding_box p a t) = heap p"
  "sync_index (update_bounding_box p a t) = sync_index p"
  "open_count (update_bounding_box p a t) = open_count p"
  "close_count (update_bounding_box p a t) = close_count p"
  by (simp_all add: update_bounding_box_def Let_def)

lemma add_entry_fits:
  assumes len: "sizeof_Entry d \<le> unat (length_field entry)"
    and fits: "int (unat (length_field entry)) + int sizeof_EntryOffset
                 \<le> int (unat (last_offset p))
                    - (int (sizeof_PageHeader d) + int sizeof_EntryOffset * int (unat (count p)))"
  shows "add_entry d p entry =
      (AKU_WRITE_STATUS_SUCCESS,
        update_bounding_box
          (p\<lparr> heap := (heap p)(word_of_int (int (unat (last_offset p)) - int (unat (length_field entry))) := stored_record d entry),
              last_offset := word_of_int (int (unat (last_offset p)) - int (unat (length_field entry))),
              page_index := (page_index p)(count p := word_of_int (int (unat (last_offset p)) - int (unat (length_field entry)))),
              count := count p + 1 \<rparr>) (param_id entry) (time entry))"
proof -
  define F where "F = int (unat (last_offset p))
                    - (int (sizeof_PageHeader d) + int sizeof_EntryOffset * int (unat (count p)))"
  have F0: "0 \<le> F" using fits unfolding F_def by linarith
  have F1: "F < 4294967296" using unat32_lt [of "last_offset p"] unfolding F_def sizeof_EntryOffset_def by linarith
  have "F \<le> uint (word_of_int (get_free_space d p) :: 64 word)"
    unfolding get_free_space_def F_def [symmetric] by (rule free_space_as_size_t [OF F0 F1])
  then have "int (unat (length_field entry) + sizeof_EntryOffset) \<le> int (unat (word_of_int (get_free_space d p) :: 64 word))"
    using fits unfolding F_def [symmetric] by simp
  then have ok: "\<not> unat (length_field entry) + sizeof_EntryOffset > unat (word_of_int (get_free_space d p) :: 64 word)"
    by linarith
  show ?thesis using len ok by (simp add: add_entry_def Let_def)
qed

lemma add_entry_fits_fields:
  assumes len: "sizeof_Entry d \<le> unat (length_field entry)"
    and fits: "int (unat (length_field entry)) + int sizeof_EntryOffset
                 \<le> int (unat (last_offset p))
                    - (int (sizeof_PageHeader d) + int sizeof_EntryOffset * int (unat (count p)))"
  shows "int (unat (last_offset (snd (add_entry d p entry))))
           = int (unat (last_offset p)) - int (unat (length_field entry))"
    and "int (unat (count (snd (add_entry d p entry)))) = int (unat (count p)) + 1"
    and "count (snd (add_entry d p entry)) = count p + 1"
    and "bbox (snd (add_entry d p entry))
           = bbox (update_bounding_box p (param_id entry) (time entry))"
proof -
  let ?lo = "word_of_int (int (unat (last_offset p)) - int (unat (length_field entry))) :: 32 word"
  have lo_lt: "unat (last_offset p) < 4294967296" by (rule unat32_lt)
  have d0: "0 \<le> int (unat (last_offset p)) - int (unat (length_field entry))"
    using fits unfolding sizeof_EntryOffset_def by linarith
  have lo: "unat ?lo = nat (int (unat (last_offset p)) - int (unat (length_field entry)))"
    using d0 lo_lt by (intro unat32_of_int) linarith+
  have cnt: "unat (count p) + 1 < 4294967296"
    using fits lo_lt unfolding sizeof_EntryOffset_def by linarith
  have c1: "unat (count p + 1) = unat (count p) + 1"
    using cnt by (simp add: unat_word_ariths)
  note eq = add_entry_fits [OF len fits]
  have "last_offset (snd (add_entry d p entry)) = ?lo"
    unfolding eq by (simp add: update_bounding_box_fields)
  then have "int (unat (last_offset (snd (add_entry d p entry)))) = int (unat ?lo)" by simp
  also have "\<dots> = int (unat (last_offset p)) - int (unat (length_field entry))"
    unfolding lo using d0 by linarith
  finally show "int (unat (last_offset (snd (add_entry d p entry))))
           = int (unat (last_offset p)) - int (unat (length_field entry))" .
  show c: "count (snd (add_entry d p entry)) = count p + 1"
    unfolding eq by (simp add: update_bounding_box_fields)
  show "int (unat (count (snd (add_entry d p entry)))) = int (unat (count p)) + 1"
    unfolding c c1 by simp
  show "bbox (snd (add_entry d p entry))
           = bbox (update_bounding_box p (param_id entry) (time entry))"
    unfolding eq by (simp add: bbox_update)
qed

text \<open>
  Records do not overlap. When the records indexed so far begin at or above
  \<open>last_offset\<close>, a record that fits is written to the bytes from the new \<open>last_offset\<close> up
  to the old one: below every record written before and not below the end of the index
  with its new slot. The same then holds of the page with the new record, so that a
  record, once written, is not touched by a later \<open>add_entry\<close>; this is what keeping the
  records in a store keyed by their offsets relies on.
\<close>

lemma add_entry_below_records:
  assumes len: "sizeof_Entry d \<le> unat (length_field entry)"
    and fits: "int (unat (length_field entry)) + int sizeof_EntryOffset
                 \<le> int (unat (last_offset p))
                    - (int (sizeof_PageHeader d) + int sizeof_EntryOffset * int (unat (count p)))"
    and above: "\<And>i. unat i < unat (count p) \<Longrightarrow> unat (last_offset p) \<le> unat (page_index p i)"
  shows "unat (last_offset (snd (add_entry d p entry))) + unat (length_field entry)
           = unat (last_offset p)"
    and "int (sizeof_PageHeader d)
           + int sizeof_EntryOffset * int (unat (count (snd (add_entry d p entry))))
           \<le> int (unat (last_offset (snd (add_entry d p entry))))"
    and "\<And>i. unat i < unat (count (snd (add_entry d p entry)))
           \<Longrightarrow> unat (last_offset (snd (add_entry d p entry)))
                 \<le> unat (page_index (snd (add_entry d p entry)) i)"
proof -
  let ?p' = "snd (add_entry d p entry)"
  note f = add_entry_fits_fields [OF len fits]
  show lo: "unat (last_offset ?p') + unat (length_field entry) = unat (last_offset p)"
    using f(1) by linarith
  show "int (sizeof_PageHeader d) + int sizeof_EntryOffset * int (unat (count ?p'))
           \<le> int (unat (last_offset ?p'))"
    unfolding f(1) f(2) using fits by (simp add: sizeof_EntryOffset_def)
  fix i :: "32 word" assume i: "unat i < unat (count ?p')"
  have idx: "page_index ?p' = (page_index p)(count p := last_offset ?p')"
    unfolding add_entry_fits [OF len fits] by (simp add: update_bounding_box_fields)
  show "unat (last_offset ?p') \<le> unat (page_index ?p' i)"
  proof (cases "i = count p")
    case True
    then show ?thesis unfolding idx by simp
  next
    case False
    then have "unat i \<noteq> unat (count p)" by (simp add: word_unat_eq_iff)
    moreover have "int (unat i) < int (unat (count p)) + 1" using i f(2) by linarith
    ultimately have "unat i < unat (count p)" by linarith
    then have "unat (last_offset p) \<le> unat (page_index p i)" by (rule above)
    then show ?thesis unfolding idx using False lo by simp
  qed
qed

text \<open>
  Claim C4. When the entry's length is at least \<open>sizeof(Entry)\<close> and the required bytes
  (length plus \<open>sizeof(EntryOffset)\<close>) fit in the free space \<open>last_offset - end of index\<close>,
  \<open>add_entry\<close> returns SUCCESS, and afterwards:
  \<^item> \<open>last_offset\<close> is smaller by the entry's length;
  \<^item> the records of the page are those it had, with one change: at the new \<open>last_offset\<close>
    lies the copy of the entry, that is its parameter, time stamp and length and the leading
    \<open>length - (sizeof(Entry) - 4)\<close> bytes of its \<open>value[]\<close>; when the entry has that many,
    the copy is \<open>length\<close> bytes long and so fills the bytes from the new \<open>last_offset\<close> up
    to the old one;
  \<^item> the index is the one the page had, with slot \<open>count\<close> set to the new \<open>last_offset\<close>;
  \<^item> \<open>count\<close> is larger by one;
  \<^item> each bound of the bounding box is the old bound widened by the entry's parameter and
    time stamp, which the box then contains.
\<close>

theorem add_entry_appends:
  assumes len: "sizeof_Entry d \<le> unat (length_field entry)"
    and fits: "int (unat (length_field entry)) + int sizeof_EntryOffset
                 \<le> int (unat (last_offset p))
                    - (int (sizeof_PageHeader d) + int sizeof_EntryOffset * int (unat (count p)))"
  shows "fst (add_entry d p entry) = AKU_WRITE_STATUS_SUCCESS \<and>
     (let p' = snd (add_entry d p entry) in
        int (unat (last_offset p')) = int (unat (last_offset p)) - int (unat (length_field entry))
      \<and> heap p' = (heap p)
            (last_offset p' :=
               \<lparr> param_id = param_id entry, time = time entry, length_field = length_field entry,
                 value_bytes = take (unat (length_field entry) - (sizeof_Entry d - 4))
                                 (value_bytes entry) \<rparr>)
      \<and> (4 \<le> sizeof_Entry d
           \<and> unat (length_field entry) - (sizeof_Entry d - 4) \<le> List.length (value_bytes entry)
          \<longrightarrow> (sizeof_Entry d - 4) + List.length (value_bytes (heap p' (last_offset p')))
                = unat (length_field entry))
      \<and> page_index p' = (page_index p)(count p := last_offset p')
      \<and> int (unat (count p')) = int (unat (count p)) + 1
      \<and> max_id (bbox p') = max (max_id (bbox p)) (param_id entry)
      \<and> min_id (bbox p') = min (min_id (bbox p)) (param_id entry)
      \<and> sint (max_timestamp (bbox p')) = max (sint (max_timestamp (bbox p))) (sint (time entry))
      \<and> sint (min_timestamp (bbox p')) = min (sint (min_timestamp (bbox p))) (sint (time entry))
      \<and> inside_bbox p' (param_id entry) (time entry))"
proof -
  let ?lo = "word_of_int (int (unat (last_offset p)) - int (unat (length_field entry))) :: 32 word"
  let ?copy = "\<lparr> param_id = param_id entry, time = time entry, length_field = length_field entry,
                 value_bytes = take (unat (length_field entry) - (sizeof_Entry d - 4))
                                 (value_bytes entry) \<rparr>"
  have lo_lt: "unat (last_offset p) < 4294967296" by (rule unat32_lt)
  have d0: "0 \<le> int (unat (last_offset p)) - int (unat (length_field entry))"
    using fits unfolding sizeof_EntryOffset_def by linarith
  have lo: "unat ?lo = nat (int (unat (last_offset p)) - int (unat (length_field entry)))"
    using d0 lo_lt by (intro unat32_of_int) linarith+
  have cnt: "unat (count p) + 1 < 4294967296"
    using fits lo_lt unfolding sizeof_EntryOffset_def by linarith
  have c1: "unat (count p + 1) = unat (count p) + 1"
    using cnt by (simp add: unat_word_ariths)
  have copy: "stored_record d entry = ?copy"
    by (cases entry) (simp add: stored_record_def sizeof_uint32_def)
  have size: "(sizeof_Entry d - 4) + List.length (value_bytes ?copy) = unat (length_field entry)"
    if "4 \<le> sizeof_Entry d"
       "unat (length_field entry) - (sizeof_Entry d - 4) \<le> List.length (value_bytes entry)"
    using that len by simp
  note eq = add_entry_fits [OF len fits]
  have heap': "heap (snd (add_entry d p entry)) = (heap p)(?lo := ?copy)"
    and lo': "last_offset (snd (add_entry d p entry)) = ?lo"
    and idx': "page_index (snd (add_entry d p entry)) = (page_index p)(count p := ?lo)"
    and cnt': "count (snd (add_entry d p entry)) = count p + 1"
    unfolding eq by (simp_all add: update_bounding_box_fields copy)
  have box: "bbox (snd (add_entry d p entry))
               = bbox (update_bounding_box p (param_id entry) (time entry))"
    unfolding eq by (simp add: bbox_update)
  have "int (unat ?lo) = int (unat (last_offset p)) - int (unat (length_field entry))"
    unfolding lo using d0 by linarith
  moreover have "int (unat (count p + 1)) = int (unat (count p)) + 1"
    unfolding c1 by simp
  moreover have "inside_bbox (snd (add_entry d p entry)) (param_id entry) (time entry)"
    unfolding inside_bbox_def box bbox_update TimeStamp_le_def TimeStamp_ge_def
    by (auto simp add: max_def min_def)
  moreover have "fst (add_entry d p entry) = AKU_WRITE_STATUS_SUCCESS"
    unfolding eq by simp
  ultimately show ?thesis
    unfolding Let_def heap' lo' idx' cnt' box bbox_update
    using size by (auto simp add: max_def min_def)
qed

theorem add_entry_appends_witness:
  "sizeof_Entry example_def \<le> unat (length_field payload_sample)
   \<and> int (unat (length_field payload_sample)) + int sizeof_EntryOffset
        \<le> int (unat (last_offset empty_page))
           - (int (sizeof_PageHeader example_def) + int sizeof_EntryOffset * int (unat (count empty_page)))
   \<and> 4 \<le> sizeof_Entry example_def
   \<and> unat (length_field payload_sample) - (sizeof_Entry example_def - 4)
        \<le> List.length (value_bytes payload_sample)
   \<and> fst (add_entry example_def empty_page payload_sample) = AKU_WRITE_STATUS_SUCCESS
   \<and> last_offset (snd (add_entry example_def empty_page payload_sample)) = 4067
   \<and> count (snd (add_entry example_def empty_page payload_sample)) = 1
   \<and> page_index (snd (add_entry example_def empty_page payload_sample)) 0 = 4067
   \<and> heap (snd (add_entry example_def empty_page payload_sample)) 4067
        = \<lparr> param_id = 7, time = 100, length_field = 28,
            value_bytes = [1, 2, 3, 4, 5, 6, 7, 8] \<rparr>
   \<and> (sizeof_Entry example_def - 4)
        + List.length (value_bytes (heap (snd (add_entry example_def empty_page payload_sample)) 4067))
        = 28"
proof -
  have h1: "sizeof_Entry example_def \<le> unat (length_field payload_sample)"
    by (simp add: example_def_def payload_sample_def)
  have h2: "int (unat (length_field payload_sample)) + int sizeof_EntryOffset
        \<le> int (unat (last_offset empty_page))
           - (int (sizeof_PageHeader example_def) + int sizeof_EntryOffset * int (unat (count empty_page)))"
    by (simp add: example_def_def payload_sample_def empty_page_def PageHeader_new_def
        sizeof_EntryOffset_def)
  have h3: "4 \<le> sizeof_Entry example_def
      \<and> unat (length_field payload_sample) - (sizeof_Entry example_def - 4)
           \<le> List.length (value_bytes payload_sample)"
    by (simp add: example_def_def payload_sample_def)
  let ?p' = "snd (add_entry example_def empty_page payload_sample)"
  note t = add_entry_appends [OF h1 h2, unfolded Let_def]
  have ok: "fst (add_entry example_def empty_page payload_sample) = AKU_WRITE_STATUS_SUCCESS"
    using t by blast
  have lo_int: "int (unat (last_offset ?p'))
                  = int (unat (last_offset empty_page)) - int (unat (length_field payload_sample))"
    using t by blast
  have hp: "heap ?p' = (heap empty_page)
            (last_offset ?p' :=
               \<lparr> param_id = param_id payload_sample, time = time payload_sample,
                 length_field = length_field payload_sample,
                 value_bytes = take (unat (length_field payload_sample) - (sizeof_Entry example_def - 4))
                                 (value_bytes payload_sample) \<rparr>)"
    using t by blast
  have ix: "page_index ?p' = (page_index empty_page)(count empty_page := last_offset ?p')"
    using t by blast
  have ct: "int (unat (count ?p')) = int (unat (count empty_page)) + 1"
    using t by blast
  have sz: "(sizeof_Entry example_def - 4) + List.length (value_bytes (heap ?p' (last_offset ?p')))
              = unat (length_field payload_sample)"
    using t h3 by blast
  have "uint (last_offset ?p') = uint (4067 :: 32 word)"
    using lo_int by (simp add: payload_sample_def empty_page_def PageHeader_new_def)
  then have lo: "last_offset ?p' = 4067" by (simp only: word_uint_eq_iff)
  have "uint (count ?p') = uint (1 :: 32 word)"
    using ct by (simp add: empty_page_def PageHeader_new_def)
  then have c: "count ?p' = 1" by (simp only: word_uint_eq_iff)
  have i0: "page_index ?p' 0 = 4067"
    unfolding ix lo by (simp add: empty_page_def PageHeader_new_def)
  have rec: "heap ?p' 4067 = \<lparr> param_id = 7, time = 100, length_field = 28,
                               value_bytes = [1, 2, 3, 4, 5, 6, 7, 8] \<rparr>"
    unfolding hp lo by (simp add: payload_sample_def example_def_def)
  have len28: "(sizeof_Entry example_def - 4) + List.length (value_bytes (heap ?p' 4067)) = 28"
    using sz unfolding lo by (simp add: payload_sample_def)
  show ?thesis using h1 h2 h3 ok lo c i0 rec len28 by blast
qed

text \<open>
  Claim C5, as stated, fails: it promises WRITE\_OVERFLOW whenever the required bytes exceed
  the free space, also for an entry shorter than \<open>sizeof(Entry)\<close>. The length is tested
  first: on a page with one free byte an entry of length 0 is answered with WRITE\_BAD\_DATA.
\<close>

theorem add_entry_overflow_first_counterexample:
  "\<not> (int (unat (length_field (sample 7 100\<lparr>length_field := 0\<rparr>))) + int sizeof_EntryOffset
          > int (unat (last_offset tiny_page))
             - (int (sizeof_PageHeader example_def) + int sizeof_EntryOffset * int (unat (count tiny_page)))
        \<longrightarrow> fst (add_entry example_def tiny_page (sample 7 100\<lparr>length_field := 0\<rparr>))
              = AKU_WRITE_STATUS_OVERFLOW)"
  by (simp add: add_entry_def sample_def tiny_page_def PageHeader_new_def example_def_def
      sizeof_EntryOffset_def)

text \<open>
  Claim C5, amended. An entry shorter than \<open>sizeof(Entry)\<close> is answered with
  WRITE\_BAD\_DATA, whatever the free space. An entry of at least that length whose required
  bytes exceed the free space that \<open>get_free_space\<close> reports, when that is not negative, is
  answered with WRITE\_OVERFLOW. In both cases the page returned is the page given: count,
  last\_offset, page\_index, bbox and the records are unchanged.
\<close>

theorem add_entry_fails_atomically:
  "(unat (length_field entry) < sizeof_Entry d
      \<longrightarrow> add_entry d p entry = (AKU_WRITE_STATUS_BAD_DATA, p))
   \<and> (sizeof_Entry d \<le> unat (length_field entry)
        \<and> 0 \<le> get_free_space d p
        \<and> int (unat (length_field entry)) + int sizeof_EntryOffset > get_free_space d p
      \<longrightarrow> add_entry d p entry = (AKU_WRITE_STATUS_OVERFLOW, p))"
proof (intro conjI impI)
  assume "unat (length_field entry) < sizeof_Entry d"
  then show "add_entry d p entry = (AKU_WRITE_STATUS_BAD_DATA, p)"
    by (simp add: add_entry_def)
next
  assume h: "sizeof_Entry d \<le> unat (length_field entry) \<and> 0 \<le> get_free_space d p
        \<and> int (unat (length_field entry)) + int sizeof_EntryOffset > get_free_space d p"
  have "get_free_space d p < 2147483648"
    unfolding get_free_space_def
    using sint_lt [of "word_of_int (int (unat (last_offset p))
           - (int (sizeof_PageHeader d) + int sizeof_EntryOffset * int (unat (count p)))) :: 32 word"]
    by simp
  then have "uint (word_of_int (get_free_space d p) :: 64 word) = get_free_space d p"
    using h by (intro size_t_nonneg) linarith+
  then have "int (unat (word_of_int (get_free_space d p) :: 64 word)) < int (unat (length_field entry) + sizeof_EntryOffset)"
    using h by simp
  then have "unat (word_of_int (get_free_space d p) :: 64 word) < unat (length_field entry) + sizeof_EntryOffset"
    by linarith
  then show "add_entry d p entry = (AKU_WRITE_STATUS_OVERFLOW, p)"
    using h by (simp add: add_entry_def Let_def)
qed

theorem add_entry_fails_atomically_witness:
  "unat (length_field (sample 7 100\<lparr>length_field := 0\<rparr>)) < sizeof_Entry example_def
   \<and> add_entry example_def tiny_page (sample 7 100\<lparr>length_field := 0\<rparr>)
        = (AKU_WRITE_STATUS_BAD_DATA, tiny_page)
   \<and> sizeof_Entry example_def \<le> unat (length_field (sample 7 100))
   \<and> 0 \<le> get_free_space example_def tiny_page
   \<and> int (unat (length_field (sample 7 100))) + int sizeof_EntryOffset > get_free_space example_def tiny_page
   \<and> add_entry example_def tiny_page (sample 7 100) = (AKU_WRITE_STATUS_OVERFLOW, tiny_page)"
proof -
  have h1: "unat (length_field (sample 7 100\<lparr>length_field := 0\<rparr>)) < sizeof_Entry example_def"
    by (simp add: sample_def example_def_def)
  have h2: "sizeof_Entry example_def \<le> unat (length_field (sample 7 100))
   \<and> 0 \<le> get_free_space example_def tiny_page
   \<and> int (unat (length_field (sample 7 100))) + int sizeof_EntryOffset > get_free_space example_def tiny_page"
    by (simp add: sample_def example_def_def get_free_space_def tiny_page_def PageHeader_new_def
        sizeof_EntryOffset_def)
  from add_entry_fails_atomically [of "sample 7 100\<lparr>length_field := 0\<rparr>" example_def tiny_page]
       add_entry_fails_atomically [of "sample 7 100" example_def tiny_page] h1 h2
  show ?thesis by blast
qed

lemma inside_bbox_widen:
  assumes "inside_bbox p a t" "bbox q = bbox p"
  shows "inside_bbox (update_bounding_box q a' t') a t"
  using assms unfolding inside_bbox_def bbox_update TimeStamp_le_def TimeStamp_ge_def
  by (auto simp add: max_def min_def)

lemma inside_bbox_new:
  "inside_bbox (update_bounding_box q a t) a t"
  unfolding inside_bbox_def bbox_update TimeStamp_le_def TimeStamp_ge_def
  by (auto simp add: max_def min_def)

lemma add_entry_cases:
  "add_entry d p entry = (AKU_WRITE_STATUS_BAD_DATA, p)
   \<or> add_entry d p entry = (AKU_WRITE_STATUS_OVERFLOW, p)
   \<or> add_entry d p entry =
         (AKU_WRITE_STATUS_SUCCESS,
          update_bounding_box
            (p\<lparr> heap := (heap p)(last_offset p - length_field entry := stored_record d entry),
                last_offset := last_offset p - length_field entry,
                page_index := (page_index p)(count p := last_offset p - length_field entry),
                count := count p + 1 \<rparr>)
            (param_id entry) (time entry))"
  by (simp add: add_entry_def Let_def)

lemma stored_record_fields:
  "param_id (stored_record d e) = param_id e" "time (stored_record d e) = time e"
  "length_field (stored_record d e) = length_field e"
  by (simp_all add: stored_record_def)

lemma bbox_covers_add_entry:
  assumes "bbox_covers p"
  shows "bbox_covers (snd (add_entry d p entry))"
proof -
  consider (1) "snd (add_entry d p entry) = p"
    | (2) lo where "snd (add_entry d p entry) =
          update_bounding_box
            (p\<lparr> heap := (heap p)(lo := stored_record d entry), last_offset := lo,
                page_index := (page_index p)(count p := lo), count := count p + 1 \<rparr>)
            (param_id entry) (time entry)"
    using add_entry_cases [of d p entry] by auto
  then show ?thesis
  proof cases
    case 1
    then show ?thesis using assms by simp
  next
    case 2
    let ?q = "p\<lparr> heap := (heap p)(lo := stored_record d entry), last_offset := lo,
                page_index := (page_index p)(count p := lo), count := count p + 1 \<rparr>"
    let ?p' = "update_bounding_box ?q (param_id entry) (time entry)"
    have "inside_bbox ?p' (param_id (entry_at ?p' i)) (time (entry_at ?p' i))"
      if i: "unat i < unat (count ?p')" for i
    proof (cases "page_index ?p' i = lo")
      case True
      then have "entry_at ?p' i = stored_record d entry"
        by (simp add: entry_at_def update_bounding_box_fields)
      then show ?thesis by (simp add: stored_record_fields inside_bbox_new)
    next
      case False
      then have ne: "i \<noteq> count p" by (auto simp add: update_bounding_box_fields)
      have "unat i < unat (count p + 1)" using i by (simp add: update_bounding_box_fields)
      moreover have "unat (count p + 1) \<le> unat (count p) + 1"
        by (simp add: unat_word_ariths)
      ultimately have "unat i \<le> unat (count p)" by linarith
      moreover have "unat i \<noteq> unat (count p)" using ne by (simp add: word_unat_eq_iff)
      ultimately have lt: "unat i < unat (count p)" by linarith
      have e: "entry_at ?p' i = entry_at p i"
        using False ne by (simp add: entry_at_def update_bounding_box_fields)
      have "inside_bbox p (param_id (entry_at p i)) (time (entry_at p i))"
        using assms lt unfolding bbox_covers_def by blast
      then show ?thesis unfolding e by (rule inside_bbox_widen) simp
    qed
    then show ?thesis unfolding 2 bbox_covers_def by blast
  qed
qed

lemma bbox_covers_add_entries:
  "bbox_covers p \<Longrightarrow> bbox_covers (snd (add_entries d p es))"
proof (induction es arbitrary: p)
  case Nil
  then show ?case by simp
next
  case (Cons e es)
  have "bbox_covers (snd (add_entry d p e))" using Cons.prems by (rule bbox_covers_add_entry)
  then have "bbox_covers (snd (add_entries d (snd (add_entry d p e)) es))" by (rule Cons.IH)
  then show ?case
    by (cases "add_entry d p e"; cases "add_entries d (snd (add_entry d p e)) es") simp
qed

lemma bbox_covers_new: "bbox_covers (PageHeader_new mi mh ty 0 len pid)"
  by (simp add: bbox_covers_def PageHeader_new_def)

lemma bbox_covers_reuse: "bbox_covers (reuse p)"
  by (simp add: bbox_covers_def reuse_def)

text \<open>
  For calls of \<open>add_entry(Entry const&)\<close> alone, on a page with no entries to begin with,
  the bounding box contains the parameter and the signed time stamp of every record the
  index refers to.
\<close>

lemma bbox_contains_Entry_records:
  assumes "count p0 = 0"
    and "p = snd (add_entries d p0 es)"
    and "unat i < unat (count p)"
  shows "sint (min_timestamp (bbox p)) \<le> sint (time (entry_at p i))
       \<and> sint (time (entry_at p i)) \<le> sint (max_timestamp (bbox p))
       \<and> min_id (bbox p) \<le> param_id (entry_at p i)
       \<and> param_id (entry_at p i) \<le> max_id (bbox p)"
proof -
  have "bbox_covers p0" using assms(1) by (simp add: bbox_covers_def)
  then have "bbox_covers p" unfolding assms(2) by (rule bbox_covers_add_entries)
  then have "inside_bbox p (param_id (entry_at p i)) (time (entry_at p i))"
    using assms(3) unfolding bbox_covers_def by blast
  then show ?thesis by (simp add: inside_bbox_def TimeStamp_le_def TimeStamp_ge_def)
qed

lemma two_entries:
  "add_entries example_def empty_page [sample 7 100, sample 3 (- 5)] =
     ([AKU_WRITE_STATUS_SUCCESS, AKU_WRITE_STATUS_SUCCESS],
      empty_page\<lparr> count := 2, last_offset := 4047,
         bbox := \<lparr> max_id = 7, min_id = 3, max_timestamp = 100, min_timestamp = - 5 \<rparr>,
         page_index := blank_index(0 := 4071, 1 := 4047),
         heap := blank_heap(4071 := sample 7 100, 4047 := sample 3 (- 5)) \<rparr>)"
  by (simp add: add_entry_def get_free_space_def update_bounding_box_def stored_record_def
      TimeStamp_greater_def TimeStamp_less_def Let_def example_simps)

text \<open>
  The space test of \<open>add_entry(Entry const&)\<close> reserves the slot that the call writes. On a
  page whose free space is not negative and fits an \<open>int\<close>, a call that succeeds was given
  a record of at least \<open>sizeof(Entry)\<close> bytes that fits together with its slot, and it
  leaves the records clear of the index; so do the calls of a sequence.
\<close>

lemma get_free_space_exact:
  assumes "0 \<le> free_exact d p" "free_exact d p < 2147483648"
  shows "get_free_space d p = free_exact d p"
    and "int (unat (word_of_int (get_free_space d p) :: 64 word)) = free_exact d p"
proof -
  show g: "get_free_space d p = free_exact d p"
    unfolding get_free_space_def free_exact_def [symmetric]
    using assms by (intro int32_small) linarith+
  have "uint (word_of_int (free_exact d p) :: 64 word) = free_exact d p"
    using assms by (intro size_t_nonneg) linarith+
  then show "int (unat (word_of_int (get_free_space d p) :: 64 word)) = free_exact d p"
    unfolding g by simp
qed

lemma add_entry_success_fits:
  assumes "0 \<le> free_exact d p" "free_exact d p < 2147483648"
    and "fst (add_entry d p entry) = AKU_WRITE_STATUS_SUCCESS"
  shows "sizeof_Entry d \<le> unat (length_field entry)"
    and "int (unat (length_field entry)) + int sizeof_EntryOffset \<le> free_exact d p"
proof -
  show len: "sizeof_Entry d \<le> unat (length_field entry)"
    using assms(3) by (auto simp add: add_entry_def Let_def split: if_splits)
  have "\<not> unat (length_field entry) + sizeof_EntryOffset
            > unat (word_of_int (get_free_space d p) :: 64 word)"
    using assms(3) len by (auto simp add: add_entry_def Let_def split: if_splits)
  then have "int (unat (length_field entry) + sizeof_EntryOffset)
               \<le> int (unat (word_of_int (get_free_space d p) :: 64 word))" by linarith
  then show "int (unat (length_field entry)) + int sizeof_EntryOffset \<le> free_exact d p"
    unfolding get_free_space_exact(2) [OF assms(1,2)] by simp
qed

lemma add_entry_keeps_clear:
  assumes "records_clear d p"
  shows "records_clear d (snd (add_entry d p entry))"
proof (cases "fst (add_entry d p entry) = AKU_WRITE_STATUS_SUCCESS")
  case False
  then have "snd (add_entry d p entry) = p"
    using add_entry_cases [of d p entry] by auto
  then show ?thesis using assms by simp
next
  case True
  have F: "0 \<le> free_exact d p" "free_exact d p < 2147483648"
    using assms by (simp_all add: records_clear_def)
  have above: "\<And>i. unat i < unat (count p) \<Longrightarrow> unat (last_offset p) \<le> unat (page_index p i)"
    using assms by (simp add: records_clear_def)
  note len = add_entry_success_fits(1) [OF F True]
  have fits: "int (unat (length_field entry)) + int sizeof_EntryOffset
                 \<le> int (unat (last_offset p))
                    - (int (sizeof_PageHeader d) + int sizeof_EntryOffset * int (unat (count p)))"
    using add_entry_success_fits(2) [OF F True] unfolding free_exact_def .
  note f = add_entry_fits_fields [OF len fits]
  note b = add_entry_below_records [OF len fits above]
  let ?p' = "snd (add_entry d p entry)"
  have "0 \<le> free_exact d ?p'" unfolding free_exact_def using b(2) by linarith
  moreover have "free_exact d ?p' \<le> free_exact d p"
    unfolding free_exact_def sizeof_EntryOffset_def using f(1) f(2) by linarith
  moreover have "\<And>i. unat i < unat (count ?p') \<Longrightarrow> unat (last_offset ?p') \<le> unat (page_index ?p' i)"
    by (rule b(3))
  ultimately show ?thesis using F(2) by (simp add: records_clear_def)
qed

lemma add_entries_keep_clear:
  "records_clear d p \<Longrightarrow> records_clear d (snd (add_entries d p es))"
proof (induction es arbitrary: p)
  case Nil
  then show ?case by simp
next
  case (Cons e es)
  have "records_clear d (snd (add_entry d p e))" using Cons.prems by (rule add_entry_keeps_clear)
  then have "records_clear d (snd (add_entries d (snd (add_entry d p e)) es))" by (rule Cons.IH)
  then show ?case
    by (cases "add_entry d p e"; cases "add_entries d (snd (add_entry d p e)) es") simp
qed

text \<open>
  \<open>add_entry(Entry2 const&)\<close> tests for the payload, \<open>sizeof(Entry2)\<close> and one slot, and
  consumes \<open>sizeof(uint32_t)\<close> bytes more, the length word written between the payload and
  the structure. A call that succeeds lowers the free space by four bytes more than it
  tested for. When four further bytes are free the record is stored as it was given.
\<close>

lemma write_index_slot_fields:
  "count (write_index_slot d p) = count p"
  "last_offset (write_index_slot d p) = last_offset p"
  "bbox (write_index_slot d p) = bbox p"
  "page_index (write_index_slot d p) = (page_index p)(count p := last_offset p)"
  by (simp_all add: write_index_slot_def Let_def)

lemma add_entry2_consumes:
  assumes F: "0 \<le> free_exact d p" "free_exact d p < 2147483648"
    and ok: "fst (add_entry2 d p entry) = AKU_WRITE_STATUS_SUCCESS"
  shows "int (unat (MemRange_length (Entry2_range entry))) + int (sizeof_Entry2 d)
           + int sizeof_EntryOffset \<le> free_exact d p"
    and "free_exact d (snd (add_entry2 d p entry))
           = free_exact d p
             - (int (unat (MemRange_length (Entry2_range entry))) + int (sizeof_Entry2 d)
                + int sizeof_EntryOffset)
             - int sizeof_uint32"
proof -
  let ?L = "unat (MemRange_length (Entry2_range entry))"
  let ?lo = "word_of_int (int (unat (last_offset p)) - int ?L - int sizeof_uint32
                           - int (sizeof_Entry2 d)) :: 32 word"
  have "\<not> ?L + sizeof_Entry2 d + sizeof_EntryOffset
            > unat (word_of_int (get_free_space d p) :: 64 word)"
    using ok by (auto simp add: add_entry2_def Let_def split: if_splits)
  then have test: "\<not> ?L + sizeof_Entry2 d + sizeof_EntryOffset
            > unat (word_of_int (get_free_space d p) :: 64 word)" .
  then have "int (?L + sizeof_Entry2 d + sizeof_EntryOffset)
               \<le> int (unat (word_of_int (get_free_space d p) :: 64 word))" by linarith
  then show req: "int ?L + int (sizeof_Entry2 d) + int sizeof_EntryOffset \<le> free_exact d p"
    unfolding get_free_space_exact(2) [OF F] by simp
  have lo_lt: "int (unat (last_offset p)) < 4294967296"
    using unat32_lt [of "last_offset p"] by linarith
  have d0: "0 \<le> int (unat (last_offset p)) - int ?L - int sizeof_uint32 - int (sizeof_Entry2 d)"
    using req unfolding free_exact_def sizeof_EntryOffset_def sizeof_uint32_def by linarith
  have lo: "unat ?lo = nat (int (unat (last_offset p)) - int ?L - int sizeof_uint32
                             - int (sizeof_Entry2 d))"
    using d0 lo_lt by (intro unat32_of_int) linarith+
  have "unat (count p) + 1 < 4294967296"
    using req lo_lt unfolding free_exact_def sizeof_EntryOffset_def by linarith
  then have c1: "unat (count p + 1) = unat (count p) + 1" by (simp add: unat_word_ariths)
  have res: "last_offset (snd (add_entry2 d p entry)) = ?lo"
            "count (snd (add_entry2 d p entry)) = count p + 1"
    using test by (simp_all add: add_entry2_def Let_def update_bounding_box_fields
        write_index_slot_fields)
  have "free_exact d (snd (add_entry2 d p entry))
          = int (nat (int (unat (last_offset p)) - int ?L - int sizeof_uint32 - int (sizeof_Entry2 d)))
            - (int (sizeof_PageHeader d) + int sizeof_EntryOffset * int (unat (count p) + 1))"
    unfolding free_exact_def res lo c1 ..
  then show "free_exact d (snd (add_entry2 d p entry))
           = free_exact d p - (int ?L + int (sizeof_Entry2 d) + int sizeof_EntryOffset)
             - int sizeof_uint32"
    using d0 unfolding free_exact_def sizeof_EntryOffset_def sizeof_uint32_def by simp
qed

lemma add_entry2_with_room:
  assumes F: "0 \<le> free_exact d p" "free_exact d p < 2147483648"
    and room: "int (unat (MemRange_length (Entry2_range entry))) + int (sizeof_Entry2 d)
                 + int sizeof_EntryOffset + int sizeof_uint32 \<le> free_exact d p"
  shows "fst (add_entry2 d p entry) = AKU_WRITE_STATUS_SUCCESS"
    and "entry_at (snd (add_entry2 d p entry)) (count p) = Entry2_as_Entry entry"
proof -
  let ?L = "unat (MemRange_length (Entry2_range entry))"
  let ?lo = "word_of_int (int (unat (last_offset p)) - int ?L - int sizeof_uint32
                           - int (sizeof_Entry2 d)) :: 32 word"
  have "int (?L + sizeof_Entry2 d + sizeof_EntryOffset)
          \<le> int (unat (word_of_int (get_free_space d p) :: 64 word))"
    unfolding get_free_space_exact(2) [OF F] using room by simp
  then have test: "\<not> ?L + sizeof_Entry2 d + sizeof_EntryOffset
            > unat (word_of_int (get_free_space d p) :: 64 word)" by linarith
  then show "fst (add_entry2 d p entry) = AKU_WRITE_STATUS_SUCCESS"
    by (simp add: add_entry2_def Let_def)
  have lo_lt: "int (unat (last_offset p)) < 4294967296"
    using unat32_lt [of "last_offset p"] by linarith
  have d0: "0 \<le> int (unat (last_offset p)) - int ?L - int sizeof_uint32 - int (sizeof_Entry2 d)"
    using room unfolding free_exact_def sizeof_EntryOffset_def sizeof_uint32_def by linarith
  have lo: "unat ?lo = nat (int (unat (last_offset p)) - int ?L - int sizeof_uint32
                             - int (sizeof_Entry2 d))"
    using d0 lo_lt by (intro unat32_of_int) linarith+
  have "int (index_slot_offset d (count p)) + int sizeof_EntryOffset \<le> int (unat ?lo)"
    unfolding lo index_slot_offset_def using room d0
    unfolding free_exact_def sizeof_EntryOffset_def sizeof_uint32_def by simp
  then have clear: "\<not> unat ?lo < index_slot_offset d (count p) + sizeof_EntryOffset" by linarith
  show "entry_at (snd (add_entry2 d p entry)) (count p) = Entry2_as_Entry entry"
    using test clear
    by (simp add: add_entry2_def Let_def entry_at_def update_bounding_box_fields
        write_index_slot_def)
qed

text \<open>
  The snug page has 40 bytes free, which is what the space test asks for the snug
  \<open>Entry2\<close>; the 44 bytes written end at \<open>last_offset = 104\<close> and begin at byte 64, where
  slot 0 of the index lies.
\<close>

lemma snug_free: "free_exact example_def snug_page = 40"
  by (simp add: free_exact_def snug_page_def PageHeader_new_def example_def_def sizeof_EntryOffset_def)

lemma snug_added:
  "add_entry2 example_def snug_page snug_entry2 =
     (AKU_WRITE_STATUS_SUCCESS,
      snug_page\<lparr>count := 1, last_offset := 64,
         bbox := \<lparr>max_id = 7, min_id = 7, max_timestamp = 100, min_timestamp = 100\<rparr>,
         page_index := blank_index(0 := 64),
         heap := blank_heap(64 := \<lparr>param_id = 64, time = 100, length_field = 4, value_bytes = [1,2,3,4]\<rparr>)\<rparr>)"
  by (simp add: add_entry2_def get_free_space_def write_index_slot_def index_slot_offset_def
      bytes_of_uint32_def uint32_of_bytes_def Entry2_as_Entry_def update_bounding_box_def
      TimeStamp_greater_def TimeStamp_less_def Let_def snug_page_def snug_entry2_def example_def_def
      PageHeader_new_def PageBoundingBox_new_def MIN_TIMESTAMP_def MAX_TIMESTAMP_def
      sizeof_EntryOffset_def sizeof_uint32_def blank_index_def blank_heap_def)

lemma snug_calls:
  "add_entry_calls example_def snug_page [as_Entry2 snug_entry2] =
     ([AKU_WRITE_STATUS_SUCCESS],
      snug_page\<lparr>count := 1, last_offset := 64,
         bbox := \<lparr>max_id = 7, min_id = 7, max_timestamp = 100, min_timestamp = 100\<rparr>,
         page_index := blank_index(0 := 64),
         heap := blank_heap(64 := \<lparr>param_id = 64, time = 100, length_field = 4, value_bytes = [1,2,3,4]\<rparr>)\<rparr>)"
  by (simp add: snug_added)

text \<open>
  Claim C7 at a failing input: the snug page, empty, and one call of
  \<open>add_entry(Entry2 const&)\<close> with parameter 7, time stamp 100 and a payload of four bytes.
  The page has 40 bytes free and the space test asks for 40, so the call returns SUCCESS.
  The record begins where slot 0 of the index lies; \<open>page_index[0] = last_offset\<close>, executed
  after the record is written, puts 64 where the record has its \<open>param_id\<close>. The bounding
  box was widened with the parameter 7 of the argument: the record that slot 0 refers to
  has parameter 64, above \<open>bbox.max_id\<close>, and the box does not contain it. The free space
  left is 4 bytes below zero.
\<close>

theorem add_entry2_overwrites_param_id:
  "fst (add_entry_calls example_def snug_page [as_Entry2 snug_entry2]) = [AKU_WRITE_STATUS_SUCCESS]
   \<and> free_exact example_def snug_page = 40
   \<and> count (snd (add_entry_calls example_def snug_page [as_Entry2 snug_entry2])) = 1
   \<and> index_slot_offset example_def 0 = 64
   \<and> page_index (snd (add_entry_calls example_def snug_page [as_Entry2 snug_entry2])) 0 = 64
   \<and> param_id (entry_at (snd (add_entry_calls example_def snug_page [as_Entry2 snug_entry2])) 0) = 64
   \<and> time (entry_at (snd (add_entry_calls example_def snug_page [as_Entry2 snug_entry2])) 0) = 100
   \<and> bbox (snd (add_entry_calls example_def snug_page [as_Entry2 snug_entry2]))
       = \<lparr> max_id = 7, min_id = 7, max_timestamp = 100, min_timestamp = 100 \<rparr>
   \<and> \<not> param_id (entry_at (snd (add_entry_calls example_def snug_page [as_Entry2 snug_entry2])) 0)
         \<le> max_id (bbox (snd (add_entry_calls example_def snug_page [as_Entry2 snug_entry2])))
   \<and> \<not> inside_bbox (snd (add_entry_calls example_def snug_page [as_Entry2 snug_entry2]))
         (param_id (entry_at (snd (add_entry_calls example_def snug_page [as_Entry2 snug_entry2])) 0))
         (time (entry_at (snd (add_entry_calls example_def snug_page [as_Entry2 snug_entry2])) 0))
   \<and> free_exact example_def (snd (add_entry_calls example_def snug_page [as_Entry2 snug_entry2])) = - 4"
  unfolding snug_calls snug_free
  by (simp add: entry_at_def inside_bbox_def index_slot_offset_def free_exact_def
      example_def_def sizeof_EntryOffset_def)

section \<open>Sorting\<close>

text \<open>What \<open>sort\<close> does establish: the index is a rearrangement of itself, ascending in the
  unsigned pair.\<close>

lemma sort_cmp_key: "sort_cmp p a b \<longleftrightarrow> unsigned_key p a < unsigned_key p b"
proof -
  have a: "unat (param_id (heap p a)) < 4294967296" by (rule unat32_lt)
  have b: "unat (param_id (heap p b)) < 4294967296" by (rule unat32_lt)
  show ?thesis
  proof (cases "unat (time (heap p a))" "unat (time (heap p b))" rule: linorder_cases)
    case less
    then have "unat (time (heap p a)) + 1 \<le> unat (time (heap p b))" by simp
    then have "(unat (time (heap p a)) + 1) * 4294967296 \<le> unat (time (heap p b)) * 4294967296"
      by (rule mult_le_mono1)
    then show ?thesis using less a b by (simp add: sort_cmp_def unsigned_key_def Let_def)
  next
    case equal
    then show ?thesis by (simp add: sort_cmp_def unsigned_key_def Let_def)
  next
    case greater
    then have "unat (time (heap p b)) + 1 \<le> unat (time (heap p a))" by simp
    then have "(unat (time (heap p b)) + 1) * 4294967296 \<le> unat (time (heap p a)) * 4294967296"
      by (rule mult_le_mono1)
    then show ?thesis using greater a b by (simp add: sort_cmp_def unsigned_key_def Let_def)
  qed
qed

lemma set_insert_by: "set (insert_by cmp x ys) = insert x (set ys)"
  by (induction ys) auto

lemma length_insert_by: "length (insert_by cmp x ys) = Suc (length ys)"
  by (induction ys) auto

lemma sorted_insert_by:
  fixes f :: "'a \<Rightarrow> nat"
  assumes "\<And>a b. cmp a b \<longleftrightarrow> f a < f b" "sorted (map f ys)"
  shows "sorted (map f (insert_by cmp x ys))"
  using assms(2) by (induction ys) (auto simp add: assms(1) set_insert_by)

lemma foldl_insert_by:
  fixes f :: "'a \<Rightarrow> nat"
  assumes "\<And>a b. cmp a b \<longleftrightarrow> f a < f b" "sorted (map f acc)"
  shows "sorted (map f (foldl (\<lambda>s x. insert_by cmp x s) acc xs))
       \<and> length (foldl (\<lambda>s x. insert_by cmp x s) acc xs) = length acc + length xs
       \<and> set (foldl (\<lambda>s x. insert_by cmp x s) acc xs) = set acc \<union> set xs"
  using assms(2)
proof (induction xs arbitrary: acc)
  case Nil
  then show ?case by simp
next
  case (Cons x xs)
  have "sorted (map f (insert_by cmp x acc))" using assms(1) Cons.prems by (rule sorted_insert_by)
  from Cons.IH [OF this] show ?case by (simp add: length_insert_by set_insert_by)
qed

lemma index_list_sort:
  "index_list (sort p) = insertion_sort (sort_cmp p) (index_list p)"
proof -
  define s where "s = insertion_sort (sort_cmp p) (index_list p)"
  have "length s = length (index_list p)"
    unfolding s_def insertion_sort_def
    using foldl_insert_by [of "sort_cmp p" "unsigned_key p" "[]" "index_list p"]
    by (simp add: sort_cmp_key)
  then have len: "length s = unat (count p)" by (simp add: index_list_def)
  have "index_list (sort p) =
          map (\<lambda>k. if unat (of_nat k :: 32 word) < unat (count p) then s ! unat (of_nat k :: 32 word)
                  else page_index p (of_nat k)) [0 ..< unat (count p)]"
    unfolding s_def by (simp add: sort_def index_list_def Let_def)
  also have "\<dots> = map (\<lambda>k. s ! k) [0 ..< unat (count p)]"
  proof (rule map_cong [OF refl])
    fix k assume "k \<in> set [0 ..< unat (count p)]"
    then have k: "k < unat (count p)" by simp
    then have "k < 4294967296" using unat32_lt [of "count p"] by linarith
    then have "unat (of_nat k :: 32 word) = k" by (simp add: unat_of_nat take_bit_eq_mod)
    then show "(if unat (of_nat k :: 32 word) < unat (count p) then s ! unat (of_nat k :: 32 word)
                  else page_index p (of_nat k)) = s ! k" using k by simp
  qed
  also have "\<dots> = s" using len by (metis map_nth)
  finally show ?thesis unfolding s_def .
qed

lemma sort_sorts_unsigned:
  "sorted (map (unsigned_key p) (index_list (sort p)))
   \<and> set (index_list (sort p)) = set (index_list p)"
  unfolding index_list_sort insertion_sort_def
  using foldl_insert_by [of "sort_cmp p" "unsigned_key p" "[]" "index_list p"]
  by (simp add: sort_cmp_key)

lemma two_entries_page:
  "snd (add_entries example_def empty_page [sample 7 100, sample 3 (- 5)]) =
      empty_page\<lparr> count := 2, last_offset := 4047,
         bbox := \<lparr> max_id = 7, min_id = 3, max_timestamp = 100, min_timestamp = - 5 \<rparr>,
         page_index := blank_index(0 := 4071, 1 := 4047),
         heap := blank_heap(4071 := sample 7 100, 4047 := sample 3 (- 5)) \<rparr>"
  unfolding two_entries by simp

text \<open>
  The order of the two records is fixed by the comparison alone: the record with time stamp
  100 compares smaller than the one with time stamp -5, and not the other way round.
\<close>

lemma sort_cmp_two_entries:
  "sort_cmp (snd (add_entries example_def empty_page [sample 7 100, sample 3 (- 5)])) 4071 4047
   \<and> \<not> sort_cmp (snd (add_entries example_def empty_page [sample 7 100, sample 3 (- 5)])) 4047 4071"
  unfolding two_entries_page by (simp add: sort_cmp_def example_simps)

text \<open>
  Claim C6 at a failing input. Two records are appended to an empty page, the first with
  time stamp 100 and the second with time stamp -5. \<open>sort\<close> compares the time stamps as
  unsigned numbers, so -5 counts as \<open>2^64 - 5\<close> and the index keeps the order 100, -5,
  which is decreasing in the signed order of time stamps: the index is not sorted by
  (timestamp, param\_id) after \<open>sort\<close>.
\<close>

theorem sort_negative_timestamp_unsorted:
  "index_list (sort (snd (add_entries example_def empty_page [sample 7 100, sample 3 (- 5)])))
     = [4071, 4047]
   \<and> map (\<lambda>e. sint (time e))
        (map (heap (sort (snd (add_entries example_def empty_page [sample 7 100, sample 3 (- 5)]))))
          (index_list (sort (snd (add_entries example_def empty_page [sample 7 100, sample 3 (- 5)])))))
     = [100, - 5]
   \<and> \<not> index_sorted (sort (snd (add_entries example_def empty_page [sample 7 100, sample 3 (- 5)])))"
  unfolding two_entries_page
  by (simp add: sort_def index_list_def insertion_sort_def sort_cmp_def index_sorted_def key_le_def
      sample_def empty_page_def PageHeader_new_def Let_def upt_rec)

section \<open>Search: the events of a run\<close>

lemma reads_of_simps [simp]:
  "reads_of [] = []"
  "reads_of (read_index i # evs) = i # reads_of evs"
  "reads_of (put off # evs) = reads_of evs"
  "reads_of (complete # evs) = reads_of evs"
  "reads_of (set_error c # evs) = reads_of evs"
  "reads_of (xs @ ys) = reads_of xs @ reads_of ys"
  by (simp_all add: reads_of_def)

lemma puts_of_simps [simp]:
  "puts_of [] = []"
  "puts_of (read_index i # evs) = puts_of evs"
  "puts_of (put off # evs) = off # puts_of evs"
  "puts_of (complete # evs) = puts_of evs"
  "puts_of (set_error c # evs) = puts_of evs"
  "puts_of (xs @ ys) = puts_of xs @ puts_of ys"
  by (simp_all add: puts_of_def)

lemma scan_step_reads [simp]: "reads_of (scan_step p query c) = [c]"
  by (simp add: scan_step_def Let_def)

lemma scan_step_puts:
  "puts_of (scan_step p query c)
     = (if matches query (heap p (page_index p c)) then [page_index p c] else [])"
  by (simp add: scan_step_def Let_def matches_def probe_in_time_range_def TimeStamp_le_def
      TimeStamp_ge_def)

lemma scan_forward_reads:
  "unat c \<le> unat mx \<Longrightarrow> i \<in> set (reads_of (scan_forward p query mx c))
     \<Longrightarrow> unat c \<le> unat i \<and> unat i \<le> unat mx"
proof (induction p query mx c rule: scan_forward.induct)
  case (1 p query mx c)
  show ?case
  proof (cases "TimeStamp_greater (time (heap p (page_index p c))) (upperbound query) \<or> c = mx")
    case True
    then have "reads_of (scan_forward p query mx c) = [c]"
      by (subst scan_forward.simps) simp
    then show ?thesis using "1.prems" by simp
  next
    case False
    then have r: "reads_of (scan_forward p query mx c) = c # reads_of (scan_forward p query mx (c + 1))"
      by (subst scan_forward.simps) simp
    have "unat c \<noteq> unat mx" using False by (simp add: word_unat_eq_iff)
    then have lt: "unat c < unat mx" using "1.prems"(1) by linarith
    then have "unat c + unat (1 :: 32 word) < 2 ^ LENGTH(32)" using unat32_lt [of mx] by simp
    then have c1: "unat (c + 1) = unat c + 1" by (simp add: unat_add_lem [THEN iffD1])
    show ?thesis
    proof (cases "i = c")
      case True
      then show ?thesis using "1.prems"(1) by simp
    next
      case ne: False
      then have "i \<in> set (reads_of (scan_forward p query mx (c + 1)))"
        using "1.prems"(2) r by simp
      moreover have "unat (c + 1) \<le> unat mx" using lt c1 by simp
      ultimately have "unat (c + 1) \<le> unat i \<and> unat i \<le> unat mx"
        using "1.IH" False by blast
      then show ?thesis using c1 by simp
    qed
  qed
qed

lemma scan_forward_puts:
  "off \<in> set (puts_of (scan_forward p query mx c)) \<Longrightarrow> matches query (heap p off)"
proof (induction p query mx c rule: scan_forward.induct)
  case (1 p query mx c)
  show ?case
  proof (cases "TimeStamp_greater (time (heap p (page_index p c))) (upperbound query) \<or> c = mx")
    case True
    then have "puts_of (scan_forward p query mx c) = puts_of (scan_step p query c)"
      by (subst scan_forward.simps) simp
    then show ?thesis using "1.prems" by (simp add: scan_step_puts split: if_splits)
  next
    case False
    then have "puts_of (scan_forward p query mx c)
        = puts_of (scan_step p query c) @ puts_of (scan_forward p query mx (c + 1))"
      by (subst scan_forward.simps) simp
    then show ?thesis using "1.prems" "1.IH" False
      by (auto simp add: scan_step_puts split: if_splits)
  qed
qed

lemma scan_backward_reads:
  "i \<in> set (reads_of (scan_backward p query c)) \<Longrightarrow> unat i \<le> unat c"
proof (induction p query c rule: scan_backward.induct)
  case (1 p query c)
  show ?case
  proof (cases "TimeStamp_less (time (heap p (page_index p c))) (lowerbound query) \<or> c = 0")
    case True
    then have "reads_of (scan_backward p query c) = [c]"
      by (subst scan_backward.simps) simp
    then show ?thesis using "1.prems" by simp
  next
    case False
    then have r: "reads_of (scan_backward p query c) = c # reads_of (scan_backward p query (c - 1))"
      by (subst scan_backward.simps) simp
    have c1: "unat (c - 1) = unat c - 1" using False by (simp add: unat_minus_one)
    show ?thesis
    proof (cases "i = c")
      case True
      then show ?thesis by simp
    next
      case ne: False
      then have "i \<in> set (reads_of (scan_backward p query (c - 1)))"
        using "1.prems" r by simp
      then have "unat i \<le> unat (c - 1)" using "1.IH" False by blast
      then show ?thesis using c1 by simp
    qed
  qed
qed

lemma scan_backward_puts:
  "off \<in> set (puts_of (scan_backward p query c)) \<Longrightarrow> matches query (heap p off)"
proof (induction p query c rule: scan_backward.induct)
  case (1 p query c)
  show ?case
  proof (cases "TimeStamp_less (time (heap p (page_index p c))) (lowerbound query) \<or> c = 0")
    case True
    then have "puts_of (scan_backward p query c) = puts_of (scan_step p query c)"
      by (subst scan_backward.simps) simp
    then show ?thesis using "1.prems" by (simp add: scan_step_puts split: if_splits)
  next
    case False
    then have "puts_of (scan_backward p query c)
        = puts_of (scan_step p query c) @ puts_of (scan_backward p query (c - 1))"
      by (subst scan_backward.simps) simp
    then show ?thesis using "1.prems" "1.IH" False
      by (auto simp add: scan_step_puts split: if_splits)
  qed
qed

lemma scan_reads:
  assumes "unat c \<le> unat mx" "i \<in> set (reads_of (scan b p query mx c))"
  shows "unat i \<le> unat mx"
  using assms scan_forward_reads [of c mx i p query] scan_backward_reads [of i p query c]
  by (auto simp add: scan_def split: if_splits)

lemma scan_puts:
  "off \<in> set (puts_of (scan b p query mx c)) \<Longrightarrow> matches query (heap p off)"
  using scan_forward_puts scan_backward_puts by (auto simp add: scan_def split: if_splits)

lemma reads_below_simps [simp]:
  "reads_below p []"
  "reads_below p (xs @ ys) \<longleftrightarrow> reads_below p xs \<and> reads_below p ys"
  "reads_below p (read_index i # evs) \<longleftrightarrow> unat i < unat (count p) \<and> reads_below p evs"
  "reads_below p (put off # evs) \<longleftrightarrow> reads_below p evs"
  "reads_below p (complete # evs) \<longleftrightarrow> reads_below p evs"
  "reads_below p (set_error c # evs) \<longleftrightarrow> reads_below p evs"
  by (simp_all add: reads_below_def)

lemma interpolation_search_inside:
  "range_inside p s \<Longrightarrow> reads_below p evs
     \<Longrightarrow> interpolation_search quota d p key s evs = Inr (s', evs')
     \<Longrightarrow> range_inside p s' \<and> reads_below p evs' \<and> puts_of evs' = puts_of evs"
proof (induction quota d p key s evs rule: interpolation_search.induct)
  case (1 quota d p key s evs)
  note eq = interpolation_search.simps [of quota d p key s evs]
  show ?case
  proof (cases "quota = 0 \<or> range_end s - range_begin s < AKU_INTERPOLATION_SEARCH_CUTOFF d")
    case True
    then have "interpolation_search quota d p key s evs = Inr (s, evs)"
      by (subst eq) auto
    then show ?thesis using "1.prems" by simp
  next
    case False
    then obtain pi where pr: "interpolation_probe key (search_lower_bound s) (search_upper_bound s)
               (range_end s - range_begin s) = Inr pi"
      using "1.prems"(3) by (subst (asm) eq) (auto split: sum.splits)
    show ?thesis
    proof (cases "pi > range_begin s \<and> pi < range_end s")
      case out: False
      then have "interpolation_search quota d p key s evs = Inr (s\<lparr> probe_index := pi \<rparr>, evs)"
        using False pr by (subst eq) auto
      then show ?thesis using "1.prems" by (auto simp add: range_inside_def)
    next
      case inside: True
      then have b: "unat (range_begin s) < unat pi" and e: "unat pi < unat (range_end s)"
        by (simp_all add: word_less_nat_alt)
      have ec: "unat (range_end s) < unat (count p)" using "1.prems"(1) by (simp add: range_inside_def)
      have "unat pi + unat (1 :: 32 word) < 2 ^ LENGTH(32)" using e unat32_lt [of "range_end s"] by simp
      then have up: "unat (pi + 1) = unat pi + 1" by (simp add: unat_add_lem [THEN iffD1])
      have "pi \<noteq> 0" using b by auto
      then have down: "unat (pi - 1) = unat pi - 1" by (simp add: unat_minus_one)
      show ?thesis
      proof (cases "sint (time (heap p (page_index p pi))) < sint key")
        case True
        let ?s = "s\<lparr> probe_index := pi, range_begin := pi + 1,
                      search_lower_bound := time (heap p (page_index p (pi + 1))) \<rparr>"
        let ?evs = "evs @ [read_index pi, read_index (pi + 1)]"
        have r: "interpolation_search (quota - 1) d p key ?s ?evs = Inr (s', evs')"
          using "1.prems"(3) False pr inside True by (subst (asm) eq) auto
        have i: "range_inside p ?s" using b e ec up by (simp add: range_inside_def)
        have rb: "reads_below p ?evs" using "1.prems"(2) b e ec up by simp
        from "1.IH"(1) [OF _ _ pr inside True i rb r] False
        show ?thesis by simp
      next
        case ge: False
        let ?s = "s\<lparr> probe_index := pi, range_end := pi - 1,
                      search_upper_bound := time (heap p (page_index p (pi - 1))) \<rparr>"
        let ?evs = "evs @ [read_index pi, read_index (pi - 1)]"
        have r: "interpolation_search (quota - 1) d p key ?s ?evs = Inr (s', evs')"
          using "1.prems"(3) False pr inside ge by (subst (asm) eq) auto
        have i: "range_inside p ?s" using b e ec down by (auto simp add: range_inside_def)
        have rb: "reads_below p ?evs" using "1.prems"(2) b e ec down by auto
        from "1.IH"(2) [OF _ _ pr inside ge i rb r] False
        show ?thesis by simp
      qed
    qed
  qed
qed

lemma midpoint_unat:
  fixes a b :: "32 word"
  assumes "a \<le> b"
  shows "unat (a + (b - a) div 2) = unat a + (unat b - unat a) div 2"
proof -
  have s: "unat (b - a) = unat b - unat a" using assms by (rule unat_sub)
  have d: "unat ((b - a) div 2) = (unat b - unat a) div 2" by (simp add: unat_div s)
  have "unat a \<le> unat b" using assms by (simp add: word_le_nat_alt)
  then have "unat a + unat ((b - a) div 2) < 2 ^ LENGTH(32)"
    unfolding d using unat32_lt [of b] by simp
  then have "unat (a + (b - a) div 2) = unat a + unat ((b - a) div 2)"
    by (simp add: unat_add_lem [THEN iffD1])
  then show ?thesis unfolding d .
qed

lemma binary_search_inside:
  assumes "unat (range_end s) < unat (count p)"
    and "unat (range_begin s) \<le> unat (range_end s) \<or> unat (probe_index s) < unat (count p)"
    and "reads_below p evs"
  shows "\<exists>s' evs'. binary_search p key s evs = Some (s', evs') \<and> reads_below p evs'
           \<and> unat (probe_index s') < unat (count p) \<and> puts_of evs' = puts_of evs"
  using assms
proof (induction "unat (range_end s) + 1 - unat (range_begin s)" arbitrary: s evs rule: less_induct)
  case less
  note eq = binary_search.simps [of p key s evs]
  show ?case
  proof (cases "range_begin s \<le> range_end s")
    case False
    then have "binary_search p key s evs = Some (s, evs)" by (subst eq) simp
    moreover have "unat (probe_index s) < unat (count p)"
      using False less.prems(2) by (simp add: word_le_nat_alt)
    ultimately show ?thesis using less.prems(3) by simp
  next
    case True
    define pi where "pi = range_begin s + (range_end s - range_begin s) div 2"
    have pu: "unat pi = unat (range_begin s) + (unat (range_end s) - unat (range_begin s)) div 2"
      unfolding pi_def using True by (rule midpoint_unat)
    have be: "unat (range_begin s) \<le> unat (range_end s)" using True by (simp add: word_le_nat_alt)
    have lo: "unat (range_begin s) \<le> unat pi" and hi: "unat pi \<le> unat (range_end s)"
      using pu be by simp_all
    have pc: "unat pi < unat (count p)" using hi less.prems(1) by simp
    have rb: "reads_below p (evs @ [read_index pi])" using less.prems(3) pc by simp
    consider (found) "time (heap p (page_index p pi)) = key"
      | (up) "time (heap p (page_index p pi)) \<noteq> key" "sint (time (heap p (page_index p pi))) < sint key"
      | (down) "time (heap p (page_index p pi)) \<noteq> key" "\<not> sint (time (heap p (page_index p pi))) < sint key"
      by blast
    then show ?thesis
    proof cases
      case found
      then have "binary_search p key s evs = Some (s\<lparr> probe_index := pi \<rparr>, evs @ [read_index pi])"
        using True by (subst eq) (simp add: Let_def pi_def)
      then show ?thesis using rb pc by simp
    next
      case up
      show ?thesis
      proof (cases "pi + 1 = count p")
        case stop: True
        then have "binary_search p key s evs
            = Some (s\<lparr> probe_index := pi, range_begin := pi + 1 \<rparr>, evs @ [read_index pi])"
          using True up by (subst eq) (simp add: Let_def pi_def)
        then show ?thesis using rb pc by simp
      next
        case go: False
        let ?s = "s\<lparr> probe_index := pi, range_begin := pi + 1 \<rparr>"
        have e: "binary_search p key s evs = binary_search p key ?s (evs @ [read_index pi])"
          using True up go by (subst eq) (simp add: Let_def pi_def)
        have "unat pi + unat (1 :: 32 word) < 2 ^ LENGTH(32)"
          using pc unat32_lt [of "count p"] by simp
        then have p1: "unat (pi + 1) = unat pi + 1" by (simp add: unat_add_lem [THEN iffD1])
        have m: "unat (range_end ?s) + 1 - unat (range_begin ?s)
                   < unat (range_end s) + 1 - unat (range_begin s)"
          using lo hi p1 by simp
        have "\<exists>s' evs'. binary_search p key ?s (evs @ [read_index pi]) = Some (s', evs')
                \<and> reads_below p evs' \<and> unat (probe_index s') < unat (count p)
                \<and> puts_of evs' = puts_of (evs @ [read_index pi])"
          using less.prems(1) pc rb by (intro less.hyps [OF m]) simp_all
        then show ?thesis unfolding e by simp
      qed
    next
      case down
      show ?thesis
      proof (cases "pi - 1 = - 1")
        case stop: True
        then have "binary_search p key s evs
            = Some (s\<lparr> probe_index := pi, range_end := pi - 1 \<rparr>, evs @ [read_index pi])"
          using True down by (subst eq) (simp add: Let_def pi_def)
        then show ?thesis using rb pc by simp
      next
        case go: False
        let ?s = "s\<lparr> probe_index := pi, range_end := pi - 1 \<rparr>"
        have e: "binary_search p key s evs = binary_search p key ?s (evs @ [read_index pi])"
          using True down go by (subst eq) (simp add: Let_def pi_def)
        have "pi \<noteq> 0" using go by auto
        then have p1: "unat (pi - 1) = unat pi - 1" and p0: "0 < unat pi"
          by (simp_all add: unat_minus_one unat_gt_0)
        have m: "unat (range_end ?s) + 1 - unat (range_begin ?s)
                   < unat (range_end s) + 1 - unat (range_begin s)"
          using lo hi p1 p0 by simp
        have "unat (range_end ?s) < unat (count p)" using p1 pc by simp
        then have "\<exists>s' evs'. binary_search p key ?s (evs @ [read_index pi]) = Some (s', evs')
                \<and> reads_below p evs' \<and> unat (probe_index s') < unat (count p)
                \<and> puts_of evs' = puts_of (evs @ [read_index pi])"
          using pc rb by (intro less.hyps [OF m]) simp_all
        then show ?thesis unfolding e by simp
      qed
    qed
  qed
qed

lemma scan_inside:
  assumes "unat mx + 1 = unat (count p)" "unat c < unat (count p)"
  shows "reads_below p (scan b p query mx c)"
proof -
  have "unat i < unat (count p)" if "i \<in> set (reads_of (scan b p query mx c))" for i
  proof -
    have "unat c \<le> unat mx" using assms by simp
    then have "unat i \<le> unat mx" using that by (rule scan_reads)
    then show ?thesis using assms(1) by simp
  qed
  then show ?thesis by (simp add: reads_below_def list_all_iff)
qed

lemma search_bisect_and_scan_inside:
  assumes "unat mx + 1 = unat (count p)"
    and "unat (range_end s) < unat (count p)"
    and "unat (range_begin s) \<le> unat (range_end s) \<or> unat (probe_index s) < unat (count p)"
    and "reads_below p evs" and "puts_of evs = []"
  shows "\<exists>evs'. search_bisect_and_scan b p query mx key s evs = Some (Inr evs')
           \<and> reads_below p evs' \<and> (\<forall>off \<in> set (puts_of evs'). matches query (heap p off))"
proof -
  obtain s1 evs1 where r: "binary_search p key s evs = Some (s1, evs1)" "reads_below p evs1"
      "unat (probe_index s1) < unat (count p)" "puts_of evs1 = puts_of evs"
    using binary_search_inside [OF assms(2,3,4), of key] by blast
  have "search_bisect_and_scan b p query mx key s evs
          = Some (Inr (evs1 @ scan b p query mx (probe_index s1)))"
    by (simp add: search_bisect_and_scan_def r(1))
  moreover have "reads_below p (evs1 @ scan b p query mx (probe_index s1))"
    using r(2) scan_inside [OF assms(1) r(3)] by simp
  moreover have "\<forall>off \<in> set (puts_of (evs1 @ scan b p query mx (probe_index s1))).
                   matches query (heap p off)"
    using r(4) assms(5) scan_puts by auto
  ultimately show ?thesis by blast
qed

lemma search_nonempty:
  assumes "count p \<noteq> 0"
  shows "\<exists>r. search d p query = Some r
           \<and> (\<forall>evs. r = Inr evs \<longrightarrow>
                 reads_below p evs \<and> (\<forall>off \<in> set (puts_of evs). matches query (heap p off)))"
proof (cases "validate_query d query")
  case False
  then show ?thesis by (simp add: search_def)
next
  case valid: True
  define b where "b = (direction query = AKU_CURSOR_DIR_BACKWARD d)"
  define mx where "mx = count p - 1"
  define key where "key = (if b then upperbound query else lowerbound query)"
  define s0 where "s0 = \<lparr> range_begin = 0, range_end = mx, probe_index = 0,
                   search_lower_bound = min_timestamp (bbox p),
                   search_upper_bound = max_timestamp (bbox p) \<rparr>"
  have mx: "unat mx + 1 = unat (count p)"
    using assms unfolding mx_def by (simp add: unat_minus_one unat_gt_0)
  have in0: "range_inside p s0" using mx by (simp add: range_inside_def s0_def)
  have scan_ok: "reads_below p (scan b p query mx c)
                 \<and> (\<forall>off \<in> set (puts_of (scan b p query mx c)). matches query (heap p off))"
    if "unat c < unat (count p)" for c
    using scan_inside [OF mx that] scan_puts by blast
  have tail0: "\<exists>evs'. search_bisect_and_scan b p query mx key s0 [] = Some (Inr evs')
           \<and> reads_below p evs' \<and> (\<forall>off \<in> set (puts_of evs'). matches query (heap p off))"
    using in0 by (intro search_bisect_and_scan_inside [OF mx]) (simp_all add: range_inside_def)
  note unfold = search_def Let_def b_def [symmetric] mx_def [symmetric] key_def [symmetric]
    s0_def [symmetric]
  show ?thesis
  proof (cases "sint key \<le> sint (max_timestamp (bbox p)) \<and> sint key \<ge> sint (min_timestamp (bbox p))")
    case within: True
    show ?thesis
    proof (cases "interpolation_search 5 d p key s0 []")
      case (Inl ub)
      then have "search d p query = Some (Inl ub)"
        using valid within unfolding unfold by simp
      then show ?thesis by simp
    next
      case (Inr res)
      obtain s evs where res: "res = (s, evs)" by (cases res)
      have i: "range_inside p s \<and> reads_below p evs \<and> puts_of evs = puts_of []"
        using in0 Inr unfolding res by (intro interpolation_search_inside [of p s0 "[]" 5 d key]) simp_all
      have "\<exists>evs'. search_bisect_and_scan b p query mx key s evs = Some (Inr evs')
           \<and> reads_below p evs' \<and> (\<forall>off \<in> set (puts_of evs'). matches query (heap p off))"
        using i by (intro search_bisect_and_scan_inside [OF mx]) (simp_all add: range_inside_def)
      moreover have "search d p query = search_bisect_and_scan b p query mx key s evs"
        using valid within Inr unfolding unfold res by simp
      ultimately show ?thesis by auto
    qed
  next
    case outside: False
    have m0: "unat mx < unat (count p)" and z0: "unat (0 :: 32 word) < unat (count p)"
      using mx by simp_all
    consider (above_b) "sint key > sint (max_timestamp (bbox p))" "b"
      | (above_f) "sint key > sint (max_timestamp (bbox p))" "\<not> b"
      | (below_f) "\<not> sint key > sint (max_timestamp (bbox p))" "sint key < sint (min_timestamp (bbox p))" "\<not> b"
      | (below_b) "\<not> sint key > sint (max_timestamp (bbox p))" "sint key < sint (min_timestamp (bbox p))" "b"
      | (neither) "\<not> sint key > sint (max_timestamp (bbox p))" "\<not> sint key < sint (min_timestamp (bbox p))"
      by blast
    then show ?thesis
    proof cases
      case above_b
      then have "search d p query = Some (Inr (scan b p query mx mx))"
        using valid outside unfolding unfold by simp
      then show ?thesis using scan_ok [OF m0] by simp
    next
      case above_f
      then have "search d p query = Some (Inr [complete])"
        using valid outside unfolding unfold by simp
      then show ?thesis by simp
    next
      case below_f
      then have "search d p query = Some (Inr (scan b p query mx 0))"
        using valid outside unfolding unfold by simp
      then show ?thesis using scan_ok [OF z0] by simp
    next
      case below_b
      then have "search d p query = Some (Inr [complete])"
        using valid outside unfolding unfold by simp
      then show ?thesis by simp
    next
      case neither
      then have "search d p query = search_bisect_and_scan b p query mx key s0 []"
        using valid outside unfolding unfold by simp
      then show ?thesis using tail0 by auto
    qed
  qed
qed

section \<open>Search: runs on the pages of the examples\<close>

lemmas add_entry_eval =
  add_entry_def get_free_space_def update_bounding_box_def stored_record_def
  TimeStamp_greater_def TimeStamp_less_def Let_def

lemma same_time_page_eq:
  "same_time_page =
      empty_page\<lparr> count := 3, last_offset := 4023, sync_index := 3,
         bbox := \<lparr> max_id = 1, min_id = 1, max_timestamp = 5, min_timestamp = 5 \<rparr>,
         page_index := blank_index(0 := 4071, 1 := 4047, 2 := 4023),
         heap := blank_heap(4071 := sample 1 5, 4047 := sample 1 5, 4023 := sample 1 5) \<rparr>"
  by (simp add: same_time_page_def add_entry_eval example_simps)

lemma unsynced_page_eq:
  "unsynced_page =
      empty_page\<lparr> count := 1, last_offset := 4071,
         bbox := \<lparr> max_id = 7, min_id = 7, max_timestamp = 100, min_timestamp = 100 \<rparr>,
         page_index := blank_index(0 := 4071),
         heap := blank_heap(4071 := sample 7 100) \<rparr>"
  by (simp add: unsynced_page_def add_entry_eval example_simps)

lemmas search_eval =
  search_def search_bisect_and_scan_def validate_query_def scan_def scan_step_def
  probe_in_time_range_def TimeStamp_less_def TimeStamp_greater_def TimeStamp_le_def
  TimeStamp_ge_def query_of_def Let_def


lemma bbox_update_twice:
  "bbox q = bbox (update_bounding_box p a t) \<Longrightarrow> bbox (update_bounding_box q a t) = bbox q"
  by (simp add: bbox_update)

lemma add_sample_once:
  assumes "28 \<le> free_bytes p"
  shows "count (snd (add_entry example_def p (sample 1 5))) = count p + 1"
    and "bbox (snd (add_entry example_def p (sample 1 5))) = bbox (update_bounding_box p 1 5)"
    and "free_bytes (snd (add_entry example_def p (sample 1 5))) = free_bytes p - 28"
proof -
  have len: "sizeof_Entry example_def \<le> unat (length_field (sample 1 5))"
    by (simp add: example_def_def sample_def)
  have fits: "int (unat (length_field (sample 1 5))) + int sizeof_EntryOffset
                 \<le> int (unat (last_offset p))
                    - (int (sizeof_PageHeader example_def) + int sizeof_EntryOffset * int (unat (count p)))"
    using assms by (simp add: example_def_def sample_def sizeof_EntryOffset_def free_bytes_def)
  note f = add_entry_fits_fields [OF len fits]
  show "count (snd (add_entry example_def p (sample 1 5))) = count p + 1" by (rule f(3))
  show "bbox (snd (add_entry example_def p (sample 1 5))) = bbox (update_bounding_box p 1 5)"
    using f(4) by (simp add: sample_def)
  have l24: "int (unat (length_field (sample 1 5))) = 24" by (simp add: sample_def)
  show "free_bytes (snd (add_entry example_def p (sample 1 5))) = free_bytes p - 28"
    unfolding free_bytes_def f(1) f(2) l24 by simp
qed

lemma add_samples:
  "28 * int n \<le> free_bytes p \<Longrightarrow>
     count (snd (add_entries example_def p (replicate n (sample 1 5)))) = count p + of_nat n
     \<and> bbox (snd (add_entries example_def p (replicate n (sample 1 5))))
         = (if n = 0 then bbox p else bbox (update_bounding_box p 1 5))"
proof (induction n arbitrary: p)
  case 0
  then show ?case by simp
next
  case (Suc n)
  let ?p1 = "snd (add_entry example_def p (sample 1 5))"
  have f: "28 \<le> free_bytes p" using Suc.prems by simp
  have "28 * int n \<le> free_bytes ?p1" using Suc.prems add_sample_once(3) [OF f] by simp
  from Suc.IH [OF this]
  have ih: "count (snd (add_entries example_def ?p1 (replicate n (sample 1 5)))) = count ?p1 + of_nat n"
       "bbox (snd (add_entries example_def ?p1 (replicate n (sample 1 5))))
         = (if n = 0 then bbox ?p1 else bbox (update_bounding_box ?p1 1 5))" by simp_all
  have s: "snd (add_entries example_def p (replicate (Suc n) (sample 1 5)))
          = snd (add_entries example_def ?p1 (replicate n (sample 1 5)))"
    by (cases "add_entry example_def p (sample 1 5)";
        cases "add_entries example_def ?p1 (replicate n (sample 1 5))") simp
  show ?case unfolding s ih
    using add_sample_once(1,2) [OF f] bbox_update_twice [of ?p1 p 1 5] by simp
qed

lemma crowded_page_fields:
  "count crowded_page = 65"
  "bbox crowded_page = \<lparr> max_id = 1, min_id = 1, max_timestamp = 5, min_timestamp = 5 \<rparr>"
proof -
  have "28 * int 65 \<le> free_bytes empty_page"
    by (simp add: free_bytes_def empty_page_def PageHeader_new_def)
  from add_samples [OF this]
  show "count crowded_page = 65"
    "bbox crowded_page = \<lparr> max_id = 1, min_id = 1, max_timestamp = 5, min_timestamp = 5 \<rparr>"
    by (simp_all add: crowded_page_def empty_page_def PageHeader_new_def bbox_update 
        PageBoundingBox_new_def MIN_TIMESTAMP_def MAX_TIMESTAMP_def)
qed


lemma same_time_search:
  "search example_def same_time_page (query_of 1 5 5 0) =
     Some (Inr [read_index 1, read_index 1, put 4047, read_index 2, put 4023, complete])"
  unfolding same_time_page_eq
  apply (simp add: search_eval example_simps)
  apply (subst interpolation_search.simps)
  apply (simp add: search_eval example_simps)
  apply (subst binary_search.simps)
  apply (simp add: search_eval example_simps)
  apply (subst scan_forward.simps)
  apply (simp add: search_eval example_simps)
  apply (subst scan_forward.simps)
  apply (simp add: search_eval example_simps)
  done

lemma unsynced_search:
  "search example_def unsynced_page (query_of 7 100 100 0) =
     Some (Inr [read_index 0, read_index 0, put 4071, complete])"
  unfolding unsynced_page_eq
  apply (simp add: search_eval example_simps)
  apply (subst interpolation_search.simps)
  apply (simp add: search_eval example_simps)
  apply (subst binary_search.simps)
  apply (simp add: search_eval example_simps)
  apply (subst scan_forward.simps)
  apply (simp add: search_eval example_simps)
  done

lemma empty_search:
  "search example_def empty_page (query_of 7 0 10 0) =
     Some (Inr (read_index 0 # scan_forward empty_page (query_of 7 0 10 0) (- 1) 1))"
  apply (simp add: search_eval example_simps)
  apply (subst scan_forward.simps)
  apply (simp add: search_eval example_simps)
  done

lemma crowded_search:
  "search example_def crowded_page (query_of 1 5 5 0) = Some (Inl division_by_zero)"
  apply (simp add: search_eval crowded_page_fields example_def_def)
  apply (subst interpolation_search.simps)
  apply (simp add: interpolation_probe_def int64_range_def crowded_page_fields example_def_def)
  done

text \<open>
  Claim C1 at a failing input. The page holds three records of parameter 1, all with time
  stamp 5, appended in turn; the index is sorted and fully synced. The valid forward query
  for parameter 1 and the time range from 5 to 5 is answered by all three records. The
  binary search stops at the middle slot, where it meets the key, and the scan goes forward
  from there: the offsets of slots 1 and 2 are put, and the record of slot 0, at offset
  4071, is left out.
\<close>

theorem search_omits_equal_timestamp:
  "validate_query example_def (query_of 1 5 5 0)
   \<and> index_sorted same_time_page
   \<and> sync_index same_time_page = count same_time_page
   \<and> unat (0 :: 32 word) < unat (sync_index same_time_page)
   \<and> page_index same_time_page 0 = 4071
   \<and> matches (query_of 1 5 5 0) (entry_at same_time_page 0)
   \<and> search example_def same_time_page (query_of 1 5 5 0)
        = Some (Inr [read_index 1, read_index 1, put 4047, read_index 2, put 4023, complete])
   \<and> 4071 \<notin> set (puts_of [read_index 1, read_index 1, put 4047, read_index 2, put 4023, complete])"
proof -
  have "index_sorted same_time_page"
    unfolding same_time_page_eq
    by (simp add: index_sorted_def index_list_def key_le_def example_simps upt_rec)
  moreover have "matches (query_of 1 5 5 0) (entry_at same_time_page 0)"
    unfolding same_time_page_eq by (simp add: matches_def query_of_def entry_at_def example_simps)
  moreover have "sync_index same_time_page = count same_time_page"
    "unat (0 :: 32 word) < unat (sync_index same_time_page)"
    "page_index same_time_page 0 = 4071"
    unfolding same_time_page_eq by (simp_all add: example_simps)
  moreover have "validate_query example_def (query_of 1 5 5 0)"
    by (simp add: validate_query_def query_of_def example_def_def TimeStamp_less_def)
  ultimately show ?thesis using same_time_search by simp
qed

text \<open>
  Claim C2, as stated, fails: \<open>search\<close> never looks at \<open>sync_index\<close>. On a page with one
  record appended and nothing synced (\<open>sync_index = 0\<close>, \<open>count = 1\<close>) the search for that
  record reads slot 0 twice and puts its offset.
\<close>

theorem search_reads_unsynced_counterexample:
  "sync_index unsynced_page = 0
   \<and> search example_def unsynced_page (query_of 7 100 100 0)
        = Some (Inr [read_index 0, read_index 0, put 4071, complete])
   \<and> \<not> reads_synced unsynced_page [read_index 0, read_index 0, put 4071, complete]"
proof -
  have "sync_index unsynced_page = 0" unfolding unsynced_page_eq by (simp add: example_simps)
  then show ?thesis using unsynced_search by (simp add: reads_synced_def)
qed

text \<open>
  Claim C2, amended. \<open>search\<close> is bounded by \<open>count\<close>, not by \<open>sync_index\<close>: on every page
  that holds at least one entry and for every query, the run ends, and when the probe
  expression is defined, every slot of \<open>page_index\<close> that it reads has an index in
  \<open>[0, count)\<close>.
\<close>

theorem search_reads_below_count:
  assumes "count p \<noteq> 0"
  shows "\<exists>r. search d p query = Some r \<and> (\<forall>evs. r = Inr evs \<longrightarrow> reads_below p evs)"
  using search_nonempty [OF assms, of d query] by blast

theorem search_reads_below_count_witness:
  "count unsynced_page \<noteq> 0
   \<and> search example_def unsynced_page (query_of 7 100 100 0)
        = Some (Inr [read_index 0, read_index 0, put 4071, complete])
   \<and> reads_below unsynced_page [read_index 0, read_index 0, put 4071, complete]"
proof -
  have h: "count unsynced_page \<noteq> 0" unfolding unsynced_page_eq by (simp add: example_simps)
  from search_reads_below_count [OF h, of example_def "query_of 7 100 100 0"] h
  show ?thesis using unsynced_search by simp
qed

text \<open>
  On every empty page, whatever its memory holds, a valid forward query whose lower bound
  is not positive makes \<open>search\<close> read slot 0 first: the key lies below \<open>min_timestamp\<close>
  of the empty box, and the forward scan starts with the read of its first slot.
\<close>

lemma search_empty_page_first_read:
  assumes empty: "count p = 0" "bbox p = PageBoundingBox_new"
    and valid: "validate_query d query"
    and forward: "direction query \<noteq> AKU_CURSOR_DIR_BACKWARD d"
    and key: "sint (lowerbound query) \<le> 0"
  shows "\<exists>rest. search d p query = Some (Inr (read_index 0 # rest))
               \<and> \<not> reads_below p (read_index 0 # rest)"
proof -
  have s: "search d p query = Some (Inr (scan_forward p query (- 1) 0))"
    using valid forward key
    by (simp add: search_def scan_def empty PageBoundingBox_new_def MIN_TIMESTAMP_def
        MAX_TIMESTAMP_def Let_def)
  have "\<exists>rest. scan_forward p query (- 1) 0 = read_index 0 # rest"
    by (subst scan_forward.simps) (simp add: scan_step_def Let_def)
  then obtain rest where r: "scan_forward p query (- 1) 0 = read_index 0 # rest" ..
  have "\<not> reads_below p (read_index 0 # rest)" by (simp add: empty)
  then show ?thesis using s r by simp
qed

text \<open>
  Claim C9 at a failing input: the empty page, as the constructor leaves it over zeroed
  memory, and the valid forward query for the time range from 0 to 10. The key 0 is below
  \<open>bbox.min_timestamp\<close> of the empty box, so the search jumps to the forward scan at slot
  0; \<open>max_index\<close> is \<open>count - 1\<close>, which wraps to \<open>2^32 - 1\<close>. The first event of the
  run is the read of slot 0, although \<open>count\<close> is 0. That read does not depend on what the
  memory holds (\<open>search_empty_page_first_read\<close>); what follows it does, and the events after
  the first are those of the zeroed store of the example.
\<close>

theorem search_empty_page_reads_slot:
  "count empty_page = 0
   \<and> validate_query example_def (query_of 7 0 10 0)
   \<and> search example_def empty_page (query_of 7 0 10 0)
        = Some (Inr (read_index 0 # scan_forward empty_page (query_of 7 0 10 0) (- 1) 1))
   \<and> \<not> reads_below empty_page (read_index 0 # scan_forward empty_page (query_of 7 0 10 0) (- 1) 1)"
proof -
  have "count empty_page = 0" by (simp add: example_simps)
  moreover have "validate_query example_def (query_of 7 0 10 0)"
    by (simp add: validate_query_def query_of_def example_def_def TimeStamp_less_def)
  ultimately show ?thesis using empty_search by simp
qed

text \<open>
  Claim C10 at a failing input: sixty-five records with the same time stamp 5 on one page
  and the valid forward query for the time range from 5 to 5. Both tracked bounds are 5,
  \<open>end - begin\<close> is 64 and so not below the cutoff, and the first evaluation of the probe
  expression divides by \<open>5 - 5\<close>.
\<close>

theorem interpolation_divides_by_zero:
  "count crowded_page = 65
   \<and> min_timestamp (bbox crowded_page) = 5 \<and> max_timestamp (bbox crowded_page) = 5
   \<and> validate_query example_def (query_of 1 5 5 0)
   \<and> search example_def crowded_page (query_of 1 5 5 0) = Some (Inl division_by_zero)"
proof -
  have "validate_query example_def (query_of 1 5 5 0)"
    by (simp add: validate_query_def query_of_def example_def_def TimeStamp_less_def)
  then show ?thesis using crowded_search by (simp add: crowded_page_fields)
qed

section \<open>Storage: start-up and search\<close>

lemma interrupted_counters: "counters interrupted_storage = [(1, 1), (0, 0)]"
  by (simp add: counters_def interrupted_storage_def Volume_close_def create_page_file_def
      close_def reuse_def PageHeader_new_def Let_def)

lemma interrupted_selected:
  "select_max (volumes interrupted_storage) = (0, 1)"
  by (simp add: select_max_def interrupted_storage_def Volume_close_def create_page_file_def
      close_def reuse_def PageHeader_new_def Let_def upt_rec)

text \<open>
  A rotation that starts from the ring at rest closes the open volume and opens the next:
  afterwards again one volume, the new active one, is opened once more than closed, and
  all others are closed as often as opened.
\<close>

lemma Volume_counters [simp]:
  "open_count (page (Volume_close v)) = open_count (page v)"
  "close_count (page (Volume_close v)) = close_count (page v) + 1"
  "open_count (page (Volume_open (reallocate_disc_space v))) = open_count (page v) + 1"
  "close_count (page (Volume_open (reallocate_disc_space v))) = close_count (page v)"
  by (simp_all add: Volume_close_def Volume_open_def reallocate_disc_space_def close_def
      reuse_def PageHeader_new_def)

lemma advance_volume_at_rest:
  assumes rest: "ring_at_rest st"
  shows "\<exists>st'. advance_volume st (active_volume_index st) = Inr st'
           \<and> active_volume st' < List.length (volumes st')
           \<and> (\<forall>j < List.length (volumes st').
                 if j = active_volume st'
                 then unat (open_count (page (volumes st' ! j)))
                        = unat (close_count (page (volumes st' ! j))) + 1
                 else open_count (page (volumes st' ! j)) = close_count (page (volumes st' ! j)))"
proof -
  let ?vs = "volumes st"
  let ?a = "active_volume st"
  let ?n = "List.length ?vs"
  have a: "?a < ?n" using rest by (simp add: ring_at_rest_def)
  have small: "unat (open_count (page (?vs ! j))) < 4294967295" if "j < ?n" for j
    using rest that by (simp add: ring_at_rest_def list_all_iff)
  have act: "unat (open_count (page (?vs ! ?a))) = unat (close_count (page (?vs ! ?a))) + 1"
    using rest a by (simp add: ring_at_rest_def list_all_iff)
  have oth: "open_count (page (?vs ! j)) = close_count (page (?vs ! j))" if "j < ?n" "j \<noteq> ?a" for j
    using rest that by (simp add: ring_at_rest_def list_all_iff)
  define vols1 where "vols1 = ?vs[?a := Volume_close (?vs ! ?a)]"
  define k where "k = unat (scast (active_volume_index st + 1) :: 64 word) mod List.length (volumes st)"
  define vols3 where "vols3 = vols1[k := Volume_open (reallocate_disc_space (vols1 ! k))]"
  have n1: "List.length vols1 = ?n" by (simp add: vols1_def)
  have ne: "vols1 \<noteq> []" using a n1 by auto
  have "0 < ?n" using a by (cases "volumes st") simp_all
  then have k: "k < ?n" unfolding k_def by (rule mod_less_divisor)
  have closed_a: "unat (close_count (page (?vs ! ?a)) + 1) = unat (close_count (page (?vs ! ?a))) + 1"
    using act small [OF a] by (simp add: unat_word_ariths)
  have eq1: "open_count (page (vols1 ! j)) = close_count (page (vols1 ! j))" if "j < ?n" for j
  proof (cases "j = ?a")
    case True
    have "unat (open_count (page (vols1 ! j))) = unat (close_count (page (vols1 ! j)))"
      using True a act closed_a by (simp add: vols1_def)
    then show ?thesis by (simp add: word_unat_eq_iff)
  next
    case False
    then show ?thesis using that oth by (simp add: vols1_def)
  qed
  have small1: "unat (open_count (page (vols1 ! j))) < 4294967295" if "j < ?n" for j
    using that small [OF that] a by (cases "j = ?a") (simp_all add: vols1_def)
  have res: "advance_volume st (active_volume_index st)
       = Inr (st\<lparr> volumes := vols3, active_volume_index := active_volume_index st + 1,
                  active_volume := k \<rparr>)"
    using ne k by (simp add: advance_volume_def Let_def vols1_def [symmetric] n1 k_def [symmetric]
        vols3_def)
  have "if j = k
        then unat (open_count (page (vols3 ! j))) = unat (close_count (page (vols3 ! j))) + 1
        else open_count (page (vols3 ! j)) = close_count (page (vols3 ! j))"
    if j: "j < ?n" for j
  proof (cases "j = k")
    case True
    have "unat (open_count (page (vols1 ! k)) + 1) = unat (open_count (page (vols1 ! k))) + 1"
      using small1 [OF k] by (simp add: unat_word_ariths)
    then show ?thesis using True k n1 eq1 [OF k] by (simp add: vols3_def)
  next
    case False
    then show ?thesis using eq1 [OF j] by (simp add: vols3_def)
  qed
  moreover have "List.length vols3 = ?n" by (simp add: vols3_def n1)
  ultimately show ?thesis unfolding res using k by simp
qed

text \<open>
  Claim C8 at a failing input. The two volumes are on disc as \<open>advance_volume_\<close> leaves
  them when the process stops between closing volume 0 and opening volume 1: the counters
  are (1, 1) and (0, 0). At the next start \<open>select_active_page\<close> picks volume 0, finds
  \<open>close_count = open_count\<close> and calls \<open>advance_volume_\<close>, which closes volume 0 once
  more before it opens volume 1. Volume 0 is left with \<open>open_count = 1\<close> and
  \<open>close_count = 2\<close>.
\<close>

theorem startup_closes_closed_volume:
  "counters interrupted_storage = [(1, 1), (0, 0)]
   \<and> (case select_active_page interrupted_storage of
        Inl failure \<Rightarrow> False
      | Inr st \<Rightarrow> counters st = [(1, 2), (1, 0)] \<and> active_volume st = 1)"
  unfolding interrupted_counters
  by (simp add: select_active_page_def interrupted_selected Let_def)
     (simp add: advance_volume_def counters_def interrupted_storage_def Volume_close_def
      Volume_open_def reallocate_disc_space_def create_page_file_def
      close_def reuse_def PageHeader_new_def Let_def)

text \<open>
  Claim C3, as stated, fails: \<open>Storage::search\<close> is an empty function. For a storage whose
  one volume holds a record that answers the query, the search the spec describes yields
  that record's offset, and \<open>Storage::search\<close> hands nothing to its cursor.
\<close>

theorem storage_search_fan_in_counterexample:
  "spec_storage_search example_def one_volume_storage (query_of 7 100 100 0) = [(0, 4071)]
   \<and> puts_of (snd (Storage_search one_volume_storage [])) = []
   \<and> map snd (spec_storage_search example_def one_volume_storage (query_of 7 100 100 0))
        \<noteq> puts_of (snd (Storage_search one_volume_storage []))"
proof -
  have "spec_storage_search example_def one_volume_storage (query_of 7 100 100 0) = [(0, 4071)]"
    by (simp add: spec_storage_search_def spec_fan_in_def spec_volume_results_def
        one_volume_storage_def unsynced_search)
  then show ?thesis by (simp add: Storage_search_def)
qed

text \<open>
  Claim C3, amended. \<open>Storage::search\<close> starts no search of any page and makes no call on
  the cursor it is given: the storage and the cursor are after the call what they were
  before it, so no result and no completion reaches the caller.
\<close>

theorem storage_search_does_nothing:
  "Storage_search st cursor = (st, cursor)
   \<and> puts_of (snd (Storage_search st [])) = []"
  by (simp add: Storage_search_def)

end
